theory Spec2Isabelle
  imports Main
begin

section \<open>Data model\<close>

text \<open>
  A batch tensor is the list of its rows along the batch dimension (dimension 0); the
  entries of a row are integers (a boolean tensor such as \<open>dones\<close> holds 0 and 1). The
  width of a tensor is the length of its rows; a tensor without rows has no width of its
  own here and stands for the empty tensor of the width its context asks for. A list
  whose rows differ in length is no tensor. Devices and the console output are not
  modelled; of the shared memory, the loop that moves the agents' models there is.
\<close>

type_synonym tensor = "int list list"

type_synonym info = "(string \<times> int) list"

text \<open>Python's \<open>xs[a:b]\<close> for integers \<open>a\<close>, \<open>b\<close>: a negative bound counts from
  the end, every bound is clamped to the length.\<close>

definition slice_bound :: "nat \<Rightarrow> int \<Rightarrow> nat" where
  "slice_bound n i = (if i < 0 then nat (max 0 (int n + i)) else min n (nat i))"

definition py_slice :: "'a list \<Rightarrow> int \<Rightarrow> int \<Rightarrow> 'a list" where
  "py_slice xs a b =
     (let lo = slice_bound (length xs) a; hi = slice_bound (length xs) b
      in take (hi - lo) (drop lo xs))"

text \<open>\<open>t.any()\<close>: some entry is non-zero.\<close>

definition tensor_any :: "tensor \<Rightarrow> bool" where
  "tensor_any t = list_ex (list_ex (\<lambda>x. x \<noteq> 0)) t"

text \<open>All the rows have the same length.\<close>

definition uniform :: "tensor \<Rightarrow> bool" where
  "uniform t = (case t of [] \<Rightarrow> True | r # rs \<Rightarrow> list_all (\<lambda>x. length x = length r) rs)"

text \<open>\<open>torch.vstack\<close> of tensors of two dimensions: the rows of the first, then the rows
  of the second, and so on. It raises on an empty sequence, and when the tensors differ
  in width.\<close>

definition vstack :: "tensor list \<Rightarrow> tensor option" where
  "vstack ts =
     (if ts = [] then None
      else if uniform (concat ts) then Some (concat ts)
      else None)"

text \<open>A command message is the dict sent through a pipe: \<open>{'task': ...}\<close>, with
  \<open>'timestep'\<close> and \<open>'timesteps'\<close> for the commands of the loop.\<close>

record msg =
  task :: string
  timestep :: "int option"
  timesteps :: "int option"

definition task_msg :: "string \<Rightarrow> msg" where
  "task_msg k = \<lparr>task = k, timestep = None, timesteps = None\<rparr>"

definition step_msg :: "string \<Rightarrow> int \<Rightarrow> int \<Rightarrow> msg" where
  "step_msg k t n = \<lparr>task = k, timestep = Some t, timesteps = Some n\<rparr>"

text \<open>
  The agent is an external collaborator. The model keeps the list of the method calls it
  has received, and its policy: what \<open>act\<close> returns (a tuple: the actions, then the
  rest) for the calls received so far, the states, the timestep and the number of
  timesteps. \<open>RecordTransition\<close> and \<open>PostInteraction\<close> are the methods of the agent's own
  class (\<open>agent.record_transition\<close>), \<open>SuperRecordTransition\<close> and \<open>SuperPostInteraction\<close>
  those found from its parent class (\<open>super(type(agent), agent).record_transition\<close>);
  these two say which class's method was found and run.

  The class of the agent is given by its method resolution order
  (\<open>type(agent).__mro__\<close>): the agent's own class first, the base class \<open>Agent\<close> behind
  it. A class defines \<open>record_transition\<close> and \<open>post_interaction\<close> or inherits them,
  and a definition is either the base behaviour (it writes the tracking data and learns
  nothing) or a learning override. \<open>agent_models\<close> is the dict \<open>agent.models\<close>: the
  models by their roles, a model being \<open>None\<close> when the role is not filled.
\<close>

datatype arg = TensorArg tensor | InfoArg info | AgentArg

datatype variant = NonLearning | Learning

record pyclass =
  class_name :: string
  def_record_transition :: "variant option"
  def_post_interaction :: "variant option"

datatype model = Model string

datatype call =
    Init
  | PreInteraction int int
  | Act tensor int int
  | RecordTransition "tensor option" "tensor option" tensor tensor tensor arg int int
  | PostInteraction int int
  | SuperRecordTransition "string \<times> variant" "tensor option" "tensor option" tensor tensor tensor arg int int
  | SuperPostInteraction "string \<times> variant" int int

record agent =
  agent_calls :: "call list"
  agent_act :: "call list \<Rightarrow> tensor \<Rightarrow> int \<Rightarrow> int \<Rightarrow> tensor \<times> tensor list"
  agent_mro :: "pyclass list"
  agent_models :: "(string \<times> model option) list"

text \<open>Attribute lookup along a method resolution order: the first class that defines
  the method, with what it defines. \<open>agent.m\<close> looks \<open>m\<close> up from the agent's own class;
  \<open>super(type(agent), agent).m\<close> starts behind the agent's own class, at its parent.\<close>

fun lookup_method :: "(pyclass \<Rightarrow> variant option) \<Rightarrow> pyclass list \<Rightarrow> (string \<times> variant) option" where
  "lookup_method f [] = None"
| "lookup_method f (k # ks) =
     (case f k of Some v \<Rightarrow> Some (class_name k, v) | None \<Rightarrow> lookup_method f ks)"

definition own_method :: "(pyclass \<Rightarrow> variant option) \<Rightarrow> agent \<Rightarrow> (string \<times> variant) option" where
  "own_method f a = lookup_method f (agent_mro a)"

definition super_method :: "(pyclass \<Rightarrow> variant option) \<Rightarrow> agent \<Rightarrow> (string \<times> variant) option" where
  "super_method f a = lookup_method f (tl (agent_mro a))"

definition agent_call :: "call \<Rightarrow> agent \<Rightarrow> agent" where
  "agent_call c a = a\<lparr>agent_calls := agent_calls a @ [c]\<rparr>"

text \<open>What travels through a queue: an agent (at \<open>init\<close>), a tensor, or the \<open>infos\<close>.\<close>

datatype item = AgentItem agent | TensorItem tensor | InfoItem info

text \<open>An object handed to the agent whole (\<open>infos=queue.get()\<close>).\<close>

fun as_arg :: "item \<Rightarrow> arg" where
  "as_arg (TensorItem t) = TensorArg t"
| "as_arg (InfoItem i) = InfoArg i"
| "as_arg (AgentItem a) = AgentArg"

section \<open>The worker: \<open>fn_processor\<close>\<close>

text \<open>
  A worker owns the reading end of its pipe, its queue, its scope and the three local
  variables \<open>agent\<close>, \<open>_states\<close> and \<open>_actions\<close>. \<open>p_trace\<close> is the sequence of what
  it has done: messages received, queue reads and writes, agent calls and barrier waits.
  \<open>p_loc\<close> is where it stands: before the first \<open>barrier.wait()\<close> (\<open>Start\<close>), at
  \<open>pipe.recv()\<close> (\<open>Loop\<close>), in a \<open>barrier.wait()\<close> (\<open>AtBarrier\<close>), after \<open>break\<close>
  (\<open>Exited\<close>), dead from an exception (\<open>Crashed\<close>), or in a \<open>queue.get()\<close> on an empty
  queue (\<open>BlockedGet\<close>).
\<close>

datatype loc = Start | Loop | AtBarrier | Exited | Crashed | BlockedGet

datatype wevent = Recv msg | QueueGet item | QueuePut item | Wait | Call call

record proc =
  p_pipe :: "msg list"
  p_queue :: "item list"
  p_scope :: "(int \<times> int) option"
  p_loc :: loc
  p_agent :: "agent option"
  p_states :: "tensor option"
  p_actions :: "tensor option"
  p_trace :: "wevent list"

definition crash :: "proc \<Rightarrow> proc" where
  "crash p = p\<lparr>p_loc := Crashed\<rparr>"

definition note_event :: "wevent \<Rightarrow> proc \<Rightarrow> proc" where
  "note_event e p = p\<lparr>p_trace := p_trace p @ [e]\<rparr>"

definition barrier_arrive :: "proc \<Rightarrow> proc" where
  "barrier_arrive p = note_event Wait (p\<lparr>p_loc := AtBarrier\<rparr>)"

text \<open>\<open>queue.get()\<close>: the oldest item, or the worker blocks (\<open>Inl\<close>: it stops there).\<close>

definition queue_get :: "proc \<Rightarrow> proc + item \<times> proc" where
  "queue_get p =
     (case p_queue p of
        [] \<Rightarrow> Inl (p\<lparr>p_loc := BlockedGet\<rparr>)
      | x # q \<Rightarrow> Inr (x, note_event (QueueGet x) (p\<lparr>p_queue := q\<rparr>)))"

definition queue_put :: "item \<Rightarrow> proc \<Rightarrow> proc" where
  "queue_put x p = note_event (QueuePut x) (p\<lparr>p_queue := p_queue p @ [x]\<rparr>)"

text \<open>\<open>queue.get()[scope[0]:scope[1]]\<close>: slicing anything but a tensor raises.\<close>

definition get_slice :: "int \<times> int \<Rightarrow> proc \<Rightarrow> proc + tensor \<times> proc" where
  "get_slice sc p =
     (case queue_get p of
        Inl p' \<Rightarrow> Inl p'
      | Inr (x, p') \<Rightarrow>
          (case x of
             TensorItem t \<Rightarrow> Inr (py_slice t (fst sc) (snd sc), p')
           | _ \<Rightarrow> Inl (crash p')))"

text \<open>A call of an agent method: the agent records it, and so does the trace.\<close>

definition do_call :: "call \<Rightarrow> agent \<Rightarrow> proc \<Rightarrow> proc" where
  "do_call c a p = note_event (Call c) (p\<lparr>p_agent := Some (agent_call c a)\<rparr>)"

text \<open>The two transition-recording branches read the queue in the same way: the method
  is looked up on the agent first (an exception when \<open>agent\<close> is still \<open>None\<close>), then
  the arguments are evaluated from left to right.\<close>

definition get_transition ::
  "int \<times> int \<Rightarrow> msg \<Rightarrow> proc \<Rightarrow> proc + (agent \<times> tensor \<times> tensor \<times> tensor \<times> arg \<times> int \<times> int) \<times> proc" where
  "get_transition sc m p =
     (case p_agent p of
        None \<Rightarrow> Inl (crash p)
      | Some a \<Rightarrow>
     (case get_slice sc p of
        Inl p' \<Rightarrow> Inl p'
      | Inr (rewards, p1) \<Rightarrow>
     (case get_slice sc p1 of
        Inl p' \<Rightarrow> Inl p'
      | Inr (next_states, p2) \<Rightarrow>
     (case get_slice sc p2 of
        Inl p' \<Rightarrow> Inl p'
      | Inr (dones, p3) \<Rightarrow>
     (case queue_get p3 of
        Inl p' \<Rightarrow> Inl p'
      | Inr (infos, p4) \<Rightarrow>
     (case (timestep m, timesteps m) of
        (Some t, Some n) \<Rightarrow> Inr ((a, rewards, next_states, dones, as_arg infos, t, n), p4)
      | _ \<Rightarrow> Inl (crash p4)))))))"

text \<open>One pass through the body of \<open>while True\<close>, after \<open>msg = pipe.recv()\<close>. In the
  last branch \<open>super(type(agent), agent).record_transition\<close> is looked up before the
  arguments are read from the queue, and \<open>super(type(agent), agent).post_interaction\<close>
  after the first call has returned; a lookup that finds nothing raises
  \<open>AttributeError\<close>.\<close>

definition handle :: "int \<times> int \<Rightarrow> msg \<Rightarrow> proc \<Rightarrow> proc" where
  "handle sc m p =
     (if task m = ''terminate'' then p\<lparr>p_loc := Exited\<rparr>
      else if task m = ''init'' then
        (case queue_get p of
           Inl p' \<Rightarrow> p'
         | Inr (x, p1) \<Rightarrow>
             (case x of
                AgentItem a \<Rightarrow> barrier_arrive (do_call Init a p1)
              | _ \<Rightarrow> crash p1))
      else if task m = ''pre_interaction'' then
        (case (p_agent p, timestep m, timesteps m) of
           (Some a, Some t, Some n) \<Rightarrow> barrier_arrive (do_call (PreInteraction t n) a p)
         | _ \<Rightarrow> crash p)
      else if task m = ''act'' then
        (case get_slice sc p of
           Inl p' \<Rightarrow> p'
         | Inr (s, p1) \<Rightarrow>
             (let p2 = p1\<lparr>p_states := Some s\<rparr> in
              case (p_agent p2, timestep m, timesteps m) of
                (Some a, Some t, Some n) \<Rightarrow>
                  (let actions = fst (agent_act a (agent_calls a) s t n);
                       p3 = (do_call (Act s t n) a p2)\<lparr>p_actions := Some actions\<rparr>
                   in barrier_arrive (queue_put (TensorItem actions) p3))
              | _ \<Rightarrow> crash p2))
      else if task m = ''record_transition'' then
        (case get_transition sc m p of
           Inl p' \<Rightarrow> p'
         | Inr ((a, rewards, next_states, dones, infos, t, n), p1) \<Rightarrow>
             barrier_arrive
               (do_call (RecordTransition (p_states p) (p_actions p) rewards next_states dones infos t n)
                  a p1))
      else if task m = ''post_interaction'' then
        (case (p_agent p, timestep m, timesteps m) of
           (Some a, Some t, Some n) \<Rightarrow> barrier_arrive (do_call (PostInteraction t n) a p)
         | _ \<Rightarrow> crash p)
      else if task m = ''eval-record_transition-post_interaction'' then
        (case p_agent p of
           None \<Rightarrow> crash p
         | Some a0 \<Rightarrow>
        (case super_method def_record_transition a0 of
           None \<Rightarrow> crash p
         | Some rt \<Rightarrow>
        (case get_transition sc m p of
           Inl p' \<Rightarrow> p'
         | Inr ((a, rewards, next_states, dones, infos, t, n), p1) \<Rightarrow>
             (let c1 = SuperRecordTransition rt (p_states p) (p_actions p) rewards next_states dones infos t n;
                  p2 = do_call c1 a p1
              in case super_method def_post_interaction a of
                   None \<Rightarrow> crash p2
                 | Some pt \<Rightarrow>
                     barrier_arrive (do_call (SuperPostInteraction pt t n) (agent_call c1 a) p2)))))
      else p)"

text \<open>The loop, run on the messages waiting in the pipe until the worker stops: in a
  barrier, at the end of the process, or at \<open>pipe.recv()\<close> with nothing to receive.\<close>

fun recv_loop :: "int \<times> int \<Rightarrow> msg list \<Rightarrow> proc \<Rightarrow> proc" where
  "recv_loop sc [] p = p"
| "recv_loop sc (m # ms) p =
     (let p' = handle sc m (note_event (Recv m) (p\<lparr>p_pipe := ms\<rparr>))
      in if p_loc p' = Loop then recv_loop sc ms p' else p')"

text \<open>\<open>fn_processor\<close>, run from where the worker stands until it stops. At the start
  it reads its scope, \<open>args[3][process_index]\<close> (an exception when the list is too
  short), and waits in the barrier.\<close>

definition fn_processor :: "proc \<Rightarrow> proc" where
  "fn_processor p =
     (case p_loc p of
        Start \<Rightarrow> (case p_scope p of None \<Rightarrow> crash p | Some sc \<Rightarrow> barrier_arrive p)
      | Loop \<Rightarrow> (case p_scope p of None \<Rightarrow> crash p | Some sc \<Rightarrow> recv_loop sc (p_pipe p) p)
      | _ \<Rightarrow> p)"

section \<open>The environment and the trainer object\<close>

text \<open>
  The environment is the other external collaborator: the calls it has received, and what
  \<open>reset()\<close> and \<open>step(actions)\<close> return after those calls.
\<close>

datatype env_call = Reset | Step tensor | Render | Close

record env =
  env_calls :: "env_call list"
  env_reset_fn :: "env_call list \<Rightarrow> tensor"
  env_step_fn :: "env_call list \<Rightarrow> tensor \<Rightarrow> tensor \<times> tensor \<times> tensor \<times> info"

text \<open>The fields of \<open>self\<close> that \<open>train\<close> and \<open>eval\<close> read. The base class \<open>Trainer\<close>
  sets them; it is not part of the sources at hand.\<close>

record trainer =
  t_env :: env
  t_agents :: "agent list"
  t_agents_scope :: "(int \<times> int) list"
  t_num_agents :: nat
  t_timesteps :: int
  t_initial_timestep :: int
  t_headless :: bool

section \<open>The coordinator: \<open>ParallelTrainer.train\<close> and \<open>ParallelTrainer.eval\<close>\<close>

text \<open>
  The coordinator's trace: what the main process does, in program order. The run is
  modelled in lock step: the workers run when the coordinator waits in the barrier (each
  up to its own \<open>barrier.wait()\<close>) and when it joins them. A wait that can never end
  is the failure \<open>Deadlock\<close>, an exception in the main process is \<open>Raised\<close>.
\<close>

datatype cevent =
    CreateBarrier nat
  | CreatePipe nat
  | CreateQueue nat
  | StartProcess nat
  | Send nat msg
  | Put nat item
  | Get nat item
  | BarrierWait
  | EnvCall env_call
  | CopyStates
  | Join nat
  | AgentsInit
  | SingleAgentTrain
  | SingleAgentEval

datatype failure = Deadlock | Raised

record coord =
  c_env :: env
  c_procs :: "proc list"
  c_parties :: nat
  c_trace :: "cevent list"

definition and_then :: "failure + 'a \<Rightarrow> ('a \<Rightarrow> failure + 'b) \<Rightarrow> failure + 'b" where
  "and_then r f = (case r of Inl e \<Rightarrow> Inl e | Inr x \<Rightarrow> f x)"

definition c_note :: "cevent list \<Rightarrow> coord \<Rightarrow> coord" where
  "c_note es c = c\<lparr>c_trace := c_trace c @ es\<rparr>"

definition env_do :: "env_call \<Rightarrow> coord \<Rightarrow> coord" where
  "env_do k c = c_note [EnvCall k] (c\<lparr>c_env := (c_env c)\<lparr>env_calls := env_calls (c_env c) @ [k]\<rparr>\<rparr>)"

text \<open>The variable \<open>states\<close> of the main process refers to a tensor object. Every
  object it refers to is what a call of \<open>env.reset()\<close> returned, and is named by the
  number of calls the environment had received before that call (whether the
  environment hands out one tensor twice is its own matter):
  \<open>states = self.env.reset()\<close> binds the variable to the object returned,
  \<open>states.copy_(...)\<close> writes into the object the variable is bound to.\<close>

datatype obj = FromReset nat

definition env_reset :: "coord \<Rightarrow> (obj \<times> tensor) \<times> coord" where
  "env_reset c =
     ((FromReset (length (env_calls (c_env c))), env_reset_fn (c_env c) (env_calls (c_env c))),
      env_do Reset c)"

definition env_step :: "tensor \<Rightarrow> coord \<Rightarrow> (tensor \<times> tensor \<times> tensor \<times> info) \<times> coord" where
  "env_step actions c = (env_step_fn (c_env c) (env_calls (c_env c)) actions, env_do (Step actions) c)"

text \<open>The multiprocessing variables: \<open>mp.Barrier(self.num_agents + 1)\<close>, then a pipe and
  a queue for each index.\<close>

definition new_proc :: "(int \<times> int) list \<Rightarrow> nat \<Rightarrow> proc" where
  "new_proc scopes i =
     \<lparr>p_pipe = [], p_queue = [],
      p_scope = (if i < length scopes then Some (scopes ! i) else None),
      p_loc = Start, p_agent = None, p_states = None, p_actions = None, p_trace = []\<rparr>"

definition create_channels :: "nat \<Rightarrow> cevent list" where
  "create_channels n = CreateBarrier (n + 1) # concat (map (\<lambda>i. [CreatePipe i, CreateQueue i]) [0..<n])"

text \<open>\<open>mp.Process(target=fn_processor, args=(i, consumer_pipes, queues, barrier,
  self.agents_scope)).start()\<close> for each index.\<close>

definition spawn :: "trainer \<Rightarrow> coord" where
  "spawn self =
     \<lparr>c_env = t_env self,
      c_procs = map (new_proc (t_agents_scope self)) [0..<t_num_agents self],
      c_parties = t_num_agents self + 1,
      c_trace = create_channels (t_num_agents self) @ map StartProcess [0..<t_num_agents self]\<rparr>"

text \<open>\<open>barrier.wait()\<close> in the main process: it returns when all the parties of the
  barrier wait in it, that is the main process and every worker.\<close>

definition release :: "proc \<Rightarrow> proc" where
  "release p = p\<lparr>p_loc := Loop\<rparr>"

definition barrier_wait :: "coord \<Rightarrow> failure + coord" where
  "barrier_wait c =
     (let ps = map fn_processor (c_procs c)
      in if 1 + length (filter (\<lambda>p. p_loc p = AtBarrier) ps) = c_parties c
            \<and> list_all (\<lambda>p. p_loc p = AtBarrier) ps
         then Inr (c_note [BarrierWait] (c\<lparr>c_procs := map release ps\<rparr>))
         else Inl Deadlock)"

text \<open>\<open>pipe.send(m)\<close> and \<open>queue.put(x)\<close> for each \<open>x\<close> of \<open>xs\<close>, on the channels of one
  worker, and the same for every worker in turn.\<close>

definition send_put :: "msg \<Rightarrow> item list \<Rightarrow> proc \<Rightarrow> proc" where
  "send_put m xs p = p\<lparr>p_pipe := p_pipe p @ [m], p_queue := p_queue p @ xs\<rparr>"

definition send_events :: "msg \<Rightarrow> item list \<Rightarrow> nat \<Rightarrow> cevent list" where
  "send_events m xs i = Send i m # map (Put i) xs"

definition broadcast :: "msg \<Rightarrow> item list \<Rightarrow> coord \<Rightarrow> coord" where
  "broadcast m xs c =
     c_note (concat (map (send_events m xs) [0..<length (c_procs c)]))
       (c\<lparr>c_procs := map (send_put m xs) (c_procs c)\<rparr>)"

text \<open>\<open>for pipe, queue, agent in zip(producer_pipes, queues, self.agents)\<close>: the
  \<open>init\<close> command and the agent itself; \<open>zip\<close> stops at the shortest list.\<close>

definition init_agents :: "agent list \<Rightarrow> coord \<Rightarrow> coord" where
  "init_agents agents c =
     c_note (concat (map (\<lambda>(i, a). send_events (task_msg ''init'') [AgentItem a] i)
                       (zip [0..<length (c_procs c)] agents)))
       (c\<lparr>c_procs := map (\<lambda>(p, a). send_put (task_msg ''init'') [AgentItem a] p) (zip (c_procs c) agents)
                       @ drop (length agents) (c_procs c)\<rparr>)"

text \<open>\<open>torch.vstack([queue.get() for queue in queues])\<close>: one item from every queue, in
  the order of the workers. An empty queue blocks the main process for ever (every
  worker is then at \<open>pipe.recv()\<close> or stopped), and anything but tensors makes
  \<open>vstack\<close> raise.\<close>

fun item_tensor :: "item \<Rightarrow> tensor option" where
  "item_tensor (TensorItem t) = Some t"
| "item_tensor _ = None"

definition take_item :: "proc \<Rightarrow> proc" where
  "take_item p = p\<lparr>p_queue := tl (p_queue p)\<rparr>"

definition gather :: "coord \<Rightarrow> failure + tensor \<times> coord" where
  "gather c =
     (if list_ex (\<lambda>p. p_queue p = []) (c_procs c) then Inl Deadlock
      else
        (let xs = map (\<lambda>p. hd (p_queue p)) (c_procs c);
             c' = c_note (map (\<lambda>(i, x). Get i x) (zip [0..<length xs] xs))
                    (c\<lparr>c_procs := map take_item (c_procs c)\<rparr>)
         in case those (map item_tensor xs) of
              None \<Rightarrow> Inl Raised
            | Some ts \<Rightarrow> (case vstack ts of None \<Rightarrow> Inl Raised | Some actions \<Rightarrow> Inr (actions, c'))))"

text \<open>The compute-actions block, the same in \<open>train\<close> and in \<open>eval\<close>.\<close>

definition compute_actions :: "int \<Rightarrow> int \<Rightarrow> tensor \<Rightarrow> coord \<Rightarrow> failure + tensor \<times> coord" where
  "compute_actions t n states c =
     and_then (barrier_wait (broadcast (step_msg ''act'' t n) [TensorItem states] c)) gather"

text \<open>\<open>states.copy_(next_states)\<close> writes \<open>next_states\<close>, broadcast to the shape of
  \<open>states\<close>, into \<open>states\<close>, which keeps its shape. In each of the two dimensions the
  sizes are the same, or that of \<open>next_states\<close> is one and the row (the entry) is
  repeated; it raises otherwise. The result is the new content of \<open>states\<close>.\<close>

definition copy_row :: "int list \<Rightarrow> int list \<Rightarrow> int list option" where
  "copy_row dst src =
     (if length src = length dst then Some src
      else if length src = 1 then Some (replicate (length dst) (hd src))
      else None)"

definition copy_into :: "tensor \<Rightarrow> tensor \<Rightarrow> tensor option" where
  "copy_into states next_states =
     (if length next_states = length states
      then those (map (\<lambda>(dst, src). copy_row dst src) (zip states next_states))
      else if length next_states = 1
      then those (map (\<lambda>dst. copy_row dst (hd next_states)) states)
      else None)"

text \<open>The reset-environments block, the same in \<open>train\<close> and in \<open>eval\<close>. \<open>sv\<close> is the
  variable \<open>states\<close>: the object it refers to and the content of that object.\<close>

definition reset_environments ::
  "tensor \<Rightarrow> obj \<times> tensor \<Rightarrow> tensor \<Rightarrow> coord \<Rightarrow> failure + (obj \<times> tensor) \<times> coord" where
  "reset_environments dones sv next_states c =
     (if tensor_any dones then Inr (env_reset c)
      else (case copy_into (snd sv) next_states of
              None \<Rightarrow> Inl Raised
            | Some rows \<Rightarrow> Inr ((fst sv, rows), c_note [CopyStates] c)))"

definition render_scene :: "bool \<Rightarrow> coord \<Rightarrow> coord" where
  "render_scene headless c = (if \<not> headless then env_do Render c else c)"

definition transition_items :: "tensor \<Rightarrow> tensor \<Rightarrow> tensor \<Rightarrow> info \<Rightarrow> item list" where
  "transition_items rewards next_states dones infos =
     [TensorItem rewards, TensorItem next_states, TensorItem dones, InfoItem infos]"

text \<open>The body of the loop of \<open>train\<close>, for one \<open>timestep\<close>.\<close>

definition train_timestep ::
  "trainer \<Rightarrow> int \<Rightarrow> (obj \<times> tensor) \<times> coord \<Rightarrow> failure + (obj \<times> tensor) \<times> coord" where
  "train_timestep self t sc =
     (case sc of (sv, c) \<Rightarrow>
      let n = t_timesteps self; states = snd sv in
      and_then (barrier_wait (broadcast (step_msg ''pre_interaction'' t n) [] c)) (\<lambda>c1.
      and_then (compute_actions t n states c1) (\<lambda>(actions, c2).
      case env_step actions c2 of ((next_states, rewards, dones, infos), c3) \<Rightarrow>
      let c4 = render_scene (t_headless self) c3 in
      and_then (barrier_wait (broadcast (step_msg ''record_transition'' t n)
                                (transition_items rewards next_states dones infos) c4)) (\<lambda>c5.
      and_then (barrier_wait (broadcast (step_msg ''post_interaction'' t n) [] c5)) (\<lambda>c6.
      reset_environments dones sv next_states c6)))))"

text \<open>The body of the loop of \<open>eval\<close>.\<close>

definition eval_timestep ::
  "trainer \<Rightarrow> int \<Rightarrow> (obj \<times> tensor) \<times> coord \<Rightarrow> failure + (obj \<times> tensor) \<times> coord" where
  "eval_timestep self t sc =
     (case sc of (sv, c) \<Rightarrow>
      let n = t_timesteps self; states = snd sv in
      and_then (compute_actions t n states c) (\<lambda>(actions, c2).
      case env_step actions c2 of ((next_states, rewards, dones, infos), c3) \<Rightarrow>
      let c4 = render_scene (t_headless self) c3 in
      and_then (barrier_wait (broadcast (step_msg ''eval-record_transition-post_interaction'' t n)
                                (transition_items rewards next_states dones infos) c4)) (\<lambda>c5.
      reset_environments dones sv next_states c5)))"

text \<open>\<open>for timestep in range(self.initial_timestep, self.timesteps)\<close>.\<close>

fun run_loop ::
  "(int \<Rightarrow> (obj \<times> tensor) \<times> coord \<Rightarrow> failure + (obj \<times> tensor) \<times> coord) \<Rightarrow> int list
   \<Rightarrow> (obj \<times> tensor) \<times> coord \<Rightarrow> failure + (obj \<times> tensor) \<times> coord" where
  "run_loop body [] sc = Inr sc"
| "run_loop body (t # ts) sc = and_then (body t sc) (run_loop body ts)"

definition py_range :: "int \<Rightarrow> int \<Rightarrow> int list" where
  "py_range a b = [a..b - 1]"

text \<open>\<open>process.join()\<close>: returns once the process has ended, by \<open>break\<close> or by an
  exception; a worker that waits for a message, an item or the barrier never ends.\<close>

definition ended :: "proc \<Rightarrow> bool" where
  "ended p = (p_loc p = Exited \<or> p_loc p = Crashed)"

definition join_all :: "coord \<Rightarrow> failure + coord" where
  "join_all c =
     (let ps = map fn_processor (c_procs c)
      in if list_all ended ps
         then Inr (c_note (map Join [0..<length ps]) (c\<lparr>c_procs := ps\<rparr>))
         else Inl Deadlock)"

text \<open>After the loop: terminate the processes, join them, close the environment.\<close>

definition shutdown :: "coord \<Rightarrow> failure + coord" where
  "shutdown c =
     and_then (join_all (broadcast (task_msg ''terminate'') [] c)) (\<lambda>c1. Inr (env_do Close c1))"

text \<open>Move tensors to shared memory: for every agent, its memory if it has one (this
  cannot fail and is not modelled further), then \<open>model.share_memory()\<close> for every value
  of \<open>agent.models\<close>, a \<open>RuntimeError\<close> being ignored. \<open>eval\<close> guards the call with
  \<open>if model is not None\<close>; \<open>train\<close> does not, and there a model that is \<open>None\<close> raises
  \<open>AttributeError\<close>, before any process is started.\<close>

definition share_memory :: "bool \<Rightarrow> agent list \<Rightarrow> failure + unit" where
  "share_memory guarded agents =
     (if guarded \<or> list_all (\<lambda>a. list_all (\<lambda>(role, m). m \<noteq> None) (agent_models a)) agents
      then Inr ()
      else Inl Raised)"

text \<open>Before the loop: move tensors to shared memory, spawn and wait for all processes to
  start, initialize the agents, reset the environment.\<close>

definition startup :: "bool \<Rightarrow> trainer \<Rightarrow> failure + (obj \<times> tensor) \<times> coord" where
  "startup guarded self =
     and_then (share_memory guarded (t_agents self)) (\<lambda>u.
     and_then (barrier_wait (spawn self)) (\<lambda>c1.
     and_then (barrier_wait (init_agents (t_agents self) c1)) (\<lambda>c2.
     Inr (env_reset c2))))"

text \<open>With one agent, \<open>self.agents.init()\<close> and the sequential method of the base class
  (not in the sources at hand) are called, and the method returns. The two events stand
  for the calls: what the sequential method does to the agent and to the environment is
  not modelled.\<close>

definition single_agent :: "cevent \<Rightarrow> trainer \<Rightarrow> coord" where
  "single_agent which self =
     \<lparr>c_env = t_env self, c_procs = [], c_parties = 0, c_trace = [AgentsInit, which]\<rparr>"

definition train :: "trainer \<Rightarrow> failure + coord" where
  "train self =
     (if t_num_agents self = 1 then Inr (single_agent SingleAgentTrain self)
      else
        and_then (startup False self) (\<lambda>sc.
        and_then (run_loop (train_timestep self)
                    (py_range (t_initial_timestep self) (t_timesteps self)) sc) (\<lambda>(sv, c).
        shutdown c)))"

definition eval :: "trainer \<Rightarrow> failure + coord" where
  "eval self =
     (if t_num_agents self = 1 then Inr (single_agent SingleAgentEval self)
      else
        and_then (startup True self) (\<lambda>sc.
        and_then (run_loop (eval_timestep self)
                    (py_range (t_initial_timestep self) (t_timesteps self)) sc) (\<lambda>(sv, c).
        shutdown c)))"

section \<open>The constructor: \<open>ParallelTrainer.__init__\<close>\<close>

text \<open>
  A configuration is a dict from option names to values. Dicts are mutable objects, so
  they live in a store: a list of dicts, an object's address being its index.
  \<open>copy.deepcopy\<close> allocates a new dict (the values here are numbers, booleans and
  strings, which are immutable), and \<open>update\<close> writes into the dict it is called on.
\<close>

datatype pyval = IntVal int | BoolVal bool | StrVal string

type_synonym pydict = "string \<Rightarrow> pyval option"

definition PARALLEL_TRAINER_DEFAULT_CONFIG :: pydict where
  "PARALLEL_TRAINER_DEFAULT_CONFIG =
     [''timesteps'' \<mapsto> IntVal 100000, ''headless'' \<mapsto> BoolVal False]"

definition deepcopy :: "nat \<Rightarrow> pydict list \<Rightarrow> (nat \<times> pydict list) option" where
  "deepcopy a h = (if a < length h then Some (length h, h @ [h ! a]) else None)"

definition dict_update :: "nat \<Rightarrow> nat \<Rightarrow> pydict list \<Rightarrow> pydict list option" where
  "dict_update a b h =
     (if a < length h \<and> b < length h then Some (h[a := (h ! a) ++ (h ! b)]) else None)"

text \<open>\<open>_cfg = copy.deepcopy(PARALLEL_TRAINER_DEFAULT_CONFIG); _cfg.update(cfg)\<close>, with the
  module's dict at the address \<open>dflt\<close> and the caller's at \<open>cfg\<close>. The result is the
  address of \<open>_cfg\<close>, which goes to the constructor of the base class, and the store.\<close>

definition init_cfg :: "nat \<Rightarrow> nat \<Rightarrow> pydict list \<Rightarrow> (nat \<times> pydict list) option" where
  "init_cfg dflt cfg h =
     (case deepcopy dflt h of
        None \<Rightarrow> None
      | Some (a, h1) \<Rightarrow>
          (case dict_update a cfg h1 of None \<Rightarrow> None | Some h2 \<Rightarrow> Some (a, h2)))"

section \<open>The validation of the scopes\<close>

text \<open>
  Modelled from the spec: the validation of the agents and their scopes, which
  \<open>ParallelTrainer.__init__\<close> leaves to the constructor of the base class \<open>Trainer\<close>
  (\<open>super().__init__(env=env, agents=agents, agents_scope=agents_scope, cfg=_cfg)\<close>); the
  base class is not in the sources at hand. The spec: a scope is \<open>(start, end)\<close> with
  \<open>0 \<le> start < end \<le> batch_size\<close>; the scopes of all workers partition
  \<open>[0, batch_size)\<close> exactly once; a scope count mismatch and scopes that fail to exactly
  tile the batch are a \<open>ConfigurationError\<close>, detected eagerly before any process
  spawns.
\<close>

datatype config_error = ConfigurationError

definition scope_ok :: "int \<Rightarrow> int \<times> int \<Rightarrow> bool" where
  "scope_ok B sc = (0 \<le> fst sc \<and> fst sc < snd sc \<and> snd sc \<le> B)"

definition in_scope :: "int \<Rightarrow> int \<times> int \<Rightarrow> bool" where
  "in_scope i sc = (fst sc \<le> i \<and> i < snd sc)"

definition tiles :: "(int \<times> int) list \<Rightarrow> int \<Rightarrow> bool" where
  "tiles scs B =
     (list_all (scope_ok B) scs \<and> list_all (\<lambda>i. length (filter (in_scope i) scs) = 1) [0..B - 1])"

definition validate :: "nat \<Rightarrow> (int \<times> int) list \<Rightarrow> int \<Rightarrow> config_error option" where
  "validate n_agents scs B =
     (if length scs \<noteq> n_agents \<or> \<not> tiles scs B then Some ConfigurationError else None)"

text \<open>The orchestrator's entry point \<open>train(env, agents, scopes, config)\<close>: the
  trainer is constructed, which validates the scopes against the size of the batch, and
  then trained.\<close>

definition checked_train :: "int \<Rightarrow> trainer \<Rightarrow> config_error + (failure + coord)" where
  "checked_train B self =
     (case validate (length (t_agents self)) (t_agents_scope self) B of
        Some e \<Rightarrow> Inl e
      | None \<Rightarrow> Inr (train self))"

section \<open>Notions used in the statements\<close>

subsection \<open>Workers between commands\<close>

text \<open>A worker is idle in its loop: it stands at \<open>pipe.recv()\<close>, nothing waits in its
  pipe or its queue, and it has its agent and its scope.\<close>

definition ready :: "proc \<Rightarrow> bool" where
  "ready p = (p_pipe p = [] \<and> p_queue p = [] \<and> p_loc p = Loop \<and> p_agent p \<noteq> None \<and> p_scope p \<noteq> None)"

text \<open>The worker after the main process has sent it the command \<open>m\<close> and put the items
  \<open>xs\<close> in its queue, run up to where it stops (\<open>serve\<close>), and then released from the
  barrier (\<open>served\<close>).\<close>

definition serve :: "msg \<Rightarrow> item list \<Rightarrow> proc \<Rightarrow> proc" where
  "serve m xs p = fn_processor (send_put m xs p)"

definition served :: "msg \<Rightarrow> item list \<Rightarrow> proc \<Rightarrow> proc" where
  "served m xs p = release (serve m xs p)"

text \<open>The main process between two phases: every worker is idle, and the barrier counts
  the workers and the main process.\<close>

definition quiescent :: "coord \<Rightarrow> bool" where
  "quiescent c = (list_all ready (c_procs c) \<and> c_parties c = length (c_procs c) + 1)"

text \<open>The action slice a worker returns for \<open>states\<close>: what it holds in \<open>_actions\<close>
  after it has served the \<open>act\<close> command. \<open>acted\<close> is the worker after the main process
  has taken that slice from its queue.\<close>

definition cached_actions :: "proc \<Rightarrow> tensor" where
  "cached_actions p = (case p_actions p of Some a \<Rightarrow> a | None \<Rightarrow> [])"

definition action_slice :: "tensor \<Rightarrow> int \<Rightarrow> int \<Rightarrow> proc \<Rightarrow> tensor" where
  "action_slice states t n p = cached_actions (served (step_msg ''act'' t n) [TensorItem states] p)"

definition acted :: "tensor \<Rightarrow> int \<Rightarrow> int \<Rightarrow> proc \<Rightarrow> proc" where
  "acted states t n p = take_item (served (step_msg ''act'' t n) [TensorItem states] p)"

subsection \<open>One timestep, as a whole\<close>

text \<open>The events of a phase of the main process: a message, and the items that go with
  it, to each of the \<open>N\<close> workers in turn, then the barrier wait. \<open>gets\<close> are the reads of
  the action slices.\<close>

definition bcast :: "nat \<Rightarrow> msg \<Rightarrow> item list \<Rightarrow> cevent list" where
  "bcast N m xs = concat (map (send_events m xs) [0..<N]) @ [BarrierWait]"

definition gets :: "tensor list \<Rightarrow> cevent list" where
  "gets slices = map (\<lambda>(i, x). Get i (TensorItem x)) (zip [0..<length slices] slices)"

text \<open>A worker after a whole timestep of \<open>train\<close> and of \<open>eval\<close>, where \<open>out\<close> is what
  \<open>env.step\<close> returned in that timestep.\<close>

definition train_worker :: "int \<Rightarrow> int \<Rightarrow> tensor \<Rightarrow> tensor \<times> tensor \<times> tensor \<times> info \<Rightarrow> proc \<Rightarrow> proc" where
  "train_worker t n states out p =
     (case out of (next_states, rewards, dones, infos) \<Rightarrow>
        served (step_msg ''post_interaction'' t n) []
          (served (step_msg ''record_transition'' t n) (transition_items rewards next_states dones infos)
             (acted states t n (served (step_msg ''pre_interaction'' t n) [] p))))"

definition eval_worker :: "int \<Rightarrow> int \<Rightarrow> tensor \<Rightarrow> tensor \<times> tensor \<times> tensor \<times> info \<Rightarrow> proc \<Rightarrow> proc" where
  "eval_worker t n states out p =
     (case out of (next_states, rewards, dones, infos) \<Rightarrow>
        served (step_msg ''eval-record_transition-post_interaction'' t n)
          (transition_items rewards next_states dones infos) (acted states t n p))"

text \<open>The events of the main process in a whole timestep of \<open>train\<close> and of \<open>eval\<close>, up
  to the reset check, and the environment after its step and its rendering.\<close>

definition step_events :: "bool \<Rightarrow> tensor list \<Rightarrow> cevent list" where
  "step_events headless slices =
     gets slices @ [EnvCall (Step (concat slices))] @ (if headless then [] else [EnvCall Render])"

definition train_events ::
  "nat \<Rightarrow> bool \<Rightarrow> int \<Rightarrow> int \<Rightarrow> tensor \<Rightarrow> tensor list \<Rightarrow> tensor \<times> tensor \<times> tensor \<times> info \<Rightarrow> cevent list" where
  "train_events N headless t n states slices out =
     (case out of (next_states, rewards, dones, infos) \<Rightarrow>
        bcast N (step_msg ''pre_interaction'' t n) []
        @ bcast N (step_msg ''act'' t n) [TensorItem states]
        @ step_events headless slices
        @ bcast N (step_msg ''record_transition'' t n) (transition_items rewards next_states dones infos)
        @ bcast N (step_msg ''post_interaction'' t n) [])"

definition eval_events ::
  "nat \<Rightarrow> bool \<Rightarrow> int \<Rightarrow> int \<Rightarrow> tensor \<Rightarrow> tensor list \<Rightarrow> tensor \<times> tensor \<times> tensor \<times> info \<Rightarrow> cevent list" where
  "eval_events N headless t n states slices out =
     (case out of (next_states, rewards, dones, infos) \<Rightarrow>
        bcast N (step_msg ''act'' t n) [TensorItem states]
        @ step_events headless slices
        @ bcast N (step_msg ''eval-record_transition-post_interaction'' t n)
            (transition_items rewards next_states dones infos))"

definition stepped_env :: "bool \<Rightarrow> tensor \<Rightarrow> env \<Rightarrow> env" where
  "stepped_env headless actions e =
     e\<lparr>env_calls := env_calls e @ Step actions # (if headless then [] else [Render])\<rparr>"

text \<open>The seven commands \<open>fn_processor\<close> knows.\<close>

definition known_tasks :: "string set" where
  "known_tasks = {''terminate'', ''init'', ''pre_interaction'', ''act'', ''record_transition'',
     ''post_interaction'', ''eval-record_transition-post_interaction''}"

text \<open>A worker after it has received \<open>terminate\<close>.\<close>

definition terminated :: "proc \<Rightarrow> proc" where
  "terminated p = p\<lparr>p_loc := Exited, p_trace := p_trace p @ [Recv (task_msg ''terminate'')]\<rparr>"

subsection \<open>A whole run\<close>

text \<open>What the base class guarantees about \<open>self\<close> on the parallel path: one scope for
  each agent, and at least two agents.\<close>

definition well_formed :: "trainer \<Rightarrow> bool" where
  "well_formed self =
     (t_num_agents self = length (t_agents self) \<and>
      length (t_agents_scope self) = length (t_agents self) \<and>
      2 \<le> t_num_agents self)"

text \<open>A worker after the first rendezvous, and after it has received and initialized
  its agent.\<close>

definition started :: "int \<times> int \<Rightarrow> proc" where
  "started sc = \<lparr>p_pipe = [], p_queue = [], p_scope = Some sc, p_loc = Loop, p_agent = None,
      p_states = None, p_actions = None, p_trace = [Wait]\<rparr>"

definition initial_proc :: "int \<times> int \<Rightarrow> agent \<Rightarrow> proc" where
  "initial_proc sc a = \<lparr>p_pipe = [], p_queue = [], p_scope = Some sc, p_loc = Loop,
      p_agent = Some (agent_call Init a), p_states = None, p_actions = None,
      p_trace = [Wait, Recv (task_msg ''init''), QueueGet (AgentItem a), Call Init, Wait]\<rparr>"

text \<open>The events of the main process before the loop.\<close>

definition startup_events :: "nat \<Rightarrow> agent list \<Rightarrow> cevent list" where
  "startup_events N agents =
     create_channels N @ map StartProcess [0..<N] @ [BarrierWait]
     @ concat (map (\<lambda>(i, a). send_events (task_msg ''init'') [AgentItem a] i) (zip [0..<N] agents))
     @ [BarrierWait, EnvCall Reset]"

text \<open>All the rows of a tensor have the width \<open>D\<close>.\<close>

definition has_width :: "nat \<Rightarrow> tensor \<Rightarrow> bool" where
  "has_width D t = list_all (\<lambda>row. length row = D) t"

text \<open>The environment always answers with states of \<open>B\<close> rows, the size of the batch,
  and of the width \<open>D\<close>, the size of an observation.\<close>

definition env_shape :: "nat \<Rightarrow> nat \<Rightarrow> env \<Rightarrow> bool" where
  "env_shape B D e =
     ((\<forall>h. length (env_reset_fn e h) = B \<and> has_width D (env_reset_fn e h)) \<and>
      (\<forall>h a. length (fst (env_step_fn e h a)) = B \<and> has_width D (fst (env_step_fn e h a))))"

text \<open>What the run asks of an agent. Its policy answers states of the width \<open>D\<close> with
  actions of the width \<open>A\<close>, the size of an action. The parent of its class has, or
  inherits, the two methods that \<open>eval\<close> calls through \<open>super\<close>. None of its models is
  \<open>None\<close>, which is what the share-memory loop of \<open>train\<close> needs.\<close>

definition acts_width :: "nat \<Rightarrow> nat \<Rightarrow> agent \<Rightarrow> bool" where
  "acts_width D A a = (\<forall>h s t n. has_width D s \<longrightarrow> has_width A (fst (agent_act a h s t n)))"

definition super_ok :: "agent \<Rightarrow> bool" where
  "super_ok a =
     (super_method def_record_transition a \<noteq> None \<and> super_method def_post_interaction a \<noteq> None)"

definition models_present :: "agent \<Rightarrow> bool" where
  "models_present a = list_all (\<lambda>(role, m). m \<noteq> None) (agent_models a)"

text \<open>The same of the agent a worker holds, for a run of \<open>eval\<close> and for a run of
  \<open>train\<close> (which does not call through \<open>super\<close>).\<close>

definition agent_ok :: "bool \<Rightarrow> nat \<Rightarrow> nat \<Rightarrow> agent \<Rightarrow> bool" where
  "agent_ok for_eval D A a = (acts_width D A a \<and> (for_eval \<longrightarrow> super_ok a))"

definition proc_ok :: "bool \<Rightarrow> nat \<Rightarrow> nat \<Rightarrow> proc \<Rightarrow> bool" where
  "proc_ok for_eval D A p = (case p_agent p of Some a \<Rightarrow> agent_ok for_eval D A a | None \<Rightarrow> False)"

text \<open>The object exists: it is what a \<open>reset()\<close> that the environment has received
  returned.\<close>

fun existing :: "obj \<Rightarrow> env \<Rightarrow> bool" where
  "existing (FromReset k) e = (k < length (env_calls e) \<and> env_calls e ! k = Reset)"

text \<open>What holds at the start of every timestep: the workers are idle in their loops
  with empty channels, the barrier counts them and the main process, \<open>states\<close> refers to
  an object that exists and has the size of the batch and the width of an observation,
  and the agents are as above.\<close>

definition loop_inv :: "nat \<Rightarrow> nat \<Rightarrow> nat \<Rightarrow> bool \<Rightarrow> nat \<Rightarrow> (obj \<times> tensor) \<times> coord \<Rightarrow> bool" where
  "loop_inv N B D for_eval A s =
     (case s of (sv, c) \<Rightarrow>
        quiescent c \<and> length (c_procs c) = N \<and> 0 < N \<and>
        existing (fst sv) (c_env c) \<and>
        length (snd sv) = B \<and> has_width D (snd sv) \<and> env_shape B D (c_env c) \<and>
        list_all (proc_ok for_eval D A) (c_procs c))"

text \<open>The synchronisation a worker sees: the messages it receives and its barrier waits.\<close>

fun is_sync :: "wevent \<Rightarrow> bool" where
  "is_sync (Recv m) = True"
| "is_sync Wait = True"
| "is_sync _ = False"

definition sync :: "wevent list \<Rightarrow> wevent list" where
  "sync tr = filter is_sync tr"

text \<open>What a worker sees of the synchronisation in the timestep \<open>t\<close>: each command of
  \<open>tasks\<close>, followed by its barrier wait.\<close>

definition worker_timestep :: "string list \<Rightarrow> int \<Rightarrow> int \<Rightarrow> wevent list" where
  "worker_timestep tasks n t = concat (map (\<lambda>k. [Recv (step_msg k t n), Wait]) tasks)"

text \<open>The phases of the main process: its trace without the data.\<close>

datatype mark = Sent nat msg | Rendezvous | Stepped | Rendered | StatesRenewed | Joined nat | Closed

fun mark_of :: "cevent \<Rightarrow> mark list" where
  "mark_of (Send i m) = [Sent i m]"
| "mark_of BarrierWait = [Rendezvous]"
| "mark_of (EnvCall (Step a)) = [Stepped]"
| "mark_of (EnvCall Render) = [Rendered]"
| "mark_of (EnvCall Reset) = [StatesRenewed]"
| "mark_of CopyStates = [StatesRenewed]"
| "mark_of (EnvCall Close) = [Closed]"
| "mark_of (Join i) = [Joined i]"
| "mark_of _ = []"

definition marks :: "cevent list \<Rightarrow> mark list" where
  "marks tr = concat (map mark_of tr)"

text \<open>The phases of a command (the command to each worker in turn, then the rendezvous),
  of a timestep of \<open>train\<close> and of a timestep of \<open>eval\<close>.\<close>

definition phase_marks :: "nat \<Rightarrow> msg \<Rightarrow> mark list" where
  "phase_marks N m = map (\<lambda>i. Sent i m) [0..<N] @ [Rendezvous]"

definition train_marks :: "nat \<Rightarrow> bool \<Rightarrow> int \<Rightarrow> int \<Rightarrow> mark list" where
  "train_marks N headless n t =
     phase_marks N (step_msg ''pre_interaction'' t n)
     @ phase_marks N (step_msg ''act'' t n)
     @ [Stepped] @ (if headless then [] else [Rendered])
     @ phase_marks N (step_msg ''record_transition'' t n)
     @ phase_marks N (step_msg ''post_interaction'' t n)
     @ [StatesRenewed]"

definition eval_marks :: "nat \<Rightarrow> bool \<Rightarrow> int \<Rightarrow> int \<Rightarrow> mark list" where
  "eval_marks N headless n t =
     phase_marks N (step_msg ''act'' t n)
     @ [Stepped] @ (if headless then [] else [Rendered])
     @ phase_marks N (step_msg ''eval-record_transition-post_interaction'' t n)
     @ [StatesRenewed]"

text \<open>The number of \<open>close()\<close> calls an environment has received.\<close>

definition closes :: "env \<Rightarrow> nat" where
  "closes e = length (filter (\<lambda>k. k = Close) (env_calls e))"

text \<open>The commands of a timestep, in the order the main process sends them.\<close>

definition train_tasks :: "string list" where
  "train_tasks = [''pre_interaction'', ''act'', ''record_transition'', ''post_interaction'']"


text \<open>The phases before the loop (the rendezvous with the started workers, the \<open>init\<close>
  command, the first reset) and after it (\<open>terminate\<close> to every worker, the joins, the
  \<open>close()\<close>).\<close>

definition startup_marks :: "nat \<Rightarrow> mark list" where
  "startup_marks N = [Rendezvous] @ phase_marks N (task_msg ''init'') @ [StatesRenewed]"

definition shutdown_marks :: "nat \<Rightarrow> mark list" where
  "shutdown_marks N = map (\<lambda>i. Sent i (task_msg ''terminate'')) [0..<N] @ map Joined [0..<N] @ [Closed]"

text \<open>The reset decisions of a run, in order: \<open>True\<close> for a call of \<open>env.reset()\<close>
  (the first one is the reset before the loop), \<open>False\<close> for a
  \<open>states.copy_(next_states)\<close>.\<close>

fun reset_flag :: "cevent \<Rightarrow> bool list" where
  "reset_flag (EnvCall Reset) = [True]"
| "reset_flag CopyStates = [False]"
| "reset_flag _ = []"

definition resets :: "failure + coord \<Rightarrow> bool list option" where
  "resets r = (case r of Inl e \<Rightarrow> None | Inr c \<Rightarrow> Some (concat (map reset_flag (c_trace c))))"

subsection \<open>Scopes and rows\<close>




subsection \<open>What \<open>super\<close> finds\<close>

text \<open>The methods that the calls through \<open>super(type(agent), agent)\<close> ran, for each
  worker at the end of a run: the class that defines the method, and whether it learns.\<close>

fun dispatched :: "call \<Rightarrow> (string \<times> variant) list" where
  "dispatched (SuperRecordTransition k s a r ns d i t n) = [k]"
| "dispatched (SuperPostInteraction k t n) = [k]"
| "dispatched _ = []"

definition super_calls :: "failure + coord \<Rightarrow> (string \<times> variant) list list option" where
  "super_calls r =
     (case r of
        Inl e \<Rightarrow> None
      | Inr c \<Rightarrow> Some (map (\<lambda>p. case p_agent p of
                                   None \<Rightarrow> []
                                 | Some a \<Rightarrow> concat (map dispatched (agent_calls a))) (c_procs c)))"

section \<open>Concrete collaborators\<close>

text \<open>The base class \<open>Agent\<close>, a class with learning overrides of the two methods, an
  agent of such a class that derives from \<open>Agent\<close> directly, whose policy adds one to
  every entry of the states it is given and both of whose models are there, a worker
  that holds it with the scope \<open>(1, 3)\<close>, an environment with a batch of four (it never
  reports an episode as done), and a trainer with one agent.\<close>

definition base_class :: pyclass where
  "base_class = \<lparr>class_name = ''Agent'', def_record_transition = Some NonLearning,
      def_post_interaction = Some NonLearning\<rparr>"

definition learning_class :: "string \<Rightarrow> pyclass" where
  "learning_class name = \<lparr>class_name = name, def_record_transition = Some Learning,
      def_post_interaction = Some Learning\<rparr>"

definition stub_agent :: agent where
  "stub_agent = \<lparr>agent_calls = [], agent_act = (\<lambda>h s t n. (map (map (\<lambda>x. x + 1)) s, [])),
      agent_mro = [learning_class ''PPO'', base_class],
      agent_models = [(''policy'', Some (Model ''policy'')), (''value'', Some (Model ''value''))]\<rparr>"

definition stub_proc :: proc where
  "stub_proc = \<lparr>p_pipe = [], p_queue = [], p_scope = Some (1, 3), p_loc = Loop,
      p_agent = Some stub_agent, p_states = None, p_actions = None, p_trace = []\<rparr>"

definition stub_env :: env where
  "stub_env = \<lparr>env_calls = [],
      env_reset_fn = (\<lambda>h. replicate 4 [0]),
      env_step_fn = (\<lambda>h a. (replicate 4 [int (length h)], replicate 4 [1], replicate 4 [0], []))\<rparr>"

definition stub_single :: trainer where
  "stub_single = \<lparr>t_env = stub_env, t_agents = [stub_agent], t_agents_scope = [(0, 4)],
      t_num_agents = 1, t_timesteps = 3, t_initial_timestep = 0, t_headless = True\<rparr>"

text \<open>A trainer with two agents on a batch of four environments, for two timesteps.\<close>

definition stub_parallel :: trainer where
  "stub_parallel = \<lparr>t_env = stub_env, t_agents = [stub_agent, stub_agent],
      t_agents_scope = [(0, 2), (2, 4)],
      t_num_agents = 2, t_timesteps = 2, t_initial_timestep = 0, t_headless = False\<rparr>"

text \<open>The end-to-end scenario: three workers on a batch of thirty environments with the
  scopes \<open>(0, 10)\<close>, \<open>(10, 20)\<close> and \<open>(20, 30)\<close>, five timesteps, and an environment
  whose \<open>dones\<close> are all false except at timestep 3 (its fourth step), where they are
  all true.\<close>

fun is_step :: "env_call \<Rightarrow> bool" where
  "is_step (Step a) = True"
| "is_step _ = False"

definition scenario_env :: env where
  "scenario_env = \<lparr>env_calls = [],
      env_reset_fn = (\<lambda>h. replicate 30 [0]),
      env_step_fn = (\<lambda>h a. (replicate 30 [int (length h)], replicate 30 [1],
          replicate 30 [if length (filter is_step h) = 3 then 1 else 0], []))\<rparr>"

definition scenario :: trainer where
  "scenario = \<lparr>t_env = scenario_env, t_agents = [stub_agent, stub_agent, stub_agent],
      t_agents_scope = [(0, 10), (10, 20), (20, 30)],
      t_num_agents = 3, t_timesteps = 5, t_initial_timestep = 0, t_headless = True\<rparr>"

text \<open>A main process at the start of a timestep, with one idle worker.\<close>

definition stub_coord :: coord where
  "stub_coord = \<lparr>c_env = stub_env, c_procs = [stub_proc], c_parties = 2, c_trace = []\<rparr>"


text \<open>An agent whose class \<open>MyPPO\<close> derives from the learning class \<open>PPO\<close> and
  defines neither of the two methods itself (\<open>class MyPPO(PPO)\<close>, with the method
  resolution order \<open>MyPPO\<close>, \<open>PPO\<close>, \<open>Agent\<close>); a worker that holds it, and the trainer
  of above with two such agents.\<close>

definition derived_class :: pyclass where
  "derived_class = \<lparr>class_name = ''MyPPO'', def_record_transition = None, def_post_interaction = None\<rparr>"

definition derived_agent :: agent where
  "derived_agent = stub_agent\<lparr>agent_mro := [derived_class, learning_class ''PPO'', base_class]\<rparr>"

definition derived_proc :: proc where
  "derived_proc = stub_proc\<lparr>p_agent := Some derived_agent\<rparr>"

definition derived_parallel :: trainer where
  "derived_parallel = stub_parallel\<lparr>t_agents := [derived_agent, derived_agent]\<rparr>"

text \<open>A store with the module's defaults at address 0 and a caller's configuration, which
  sets \<open>timesteps\<close> and an option of its own, at address 1.\<close>

definition stub_store :: "pydict list" where
  "stub_store = [PARALLEL_TRAINER_DEFAULT_CONFIG, [''timesteps'' \<mapsto> IntVal 500, ''seed'' \<mapsto> IntVal 7]]"

section \<open>Auxiliary lemmas\<close>

lemma serve_ready:
  assumes "ready p" and "p_scope p = Some sc"
  shows "serve m xs p = handle sc m (p\<lparr>p_queue := xs, p_trace := p_trace p @ [Recv m]\<rparr>)"
  using assms
  by (cases p) (simp add: serve_def fn_processor_def send_put_def ready_def note_event_def Let_def)

lemmas worker_defs = handle_def barrier_arrive_def do_call_def note_event_def queue_get_def
  queue_put_def get_slice_def get_transition_def crash_def agent_call_def step_msg_def task_msg_def

lemma serve_pre:
  assumes "ready p" and "p_agent p = Some a"
  shows "serve (step_msg ''pre_interaction'' t n) [] p =
         p\<lparr>p_loc := AtBarrier, p_agent := Some (agent_call (PreInteraction t n) a),
           p_trace := p_trace p @ [Recv (step_msg ''pre_interaction'' t n), Call (PreInteraction t n), Wait]\<rparr>"
proof -
  from assms(1) obtain sc where sc: "p_scope p = Some sc" by (auto simp: ready_def)
  show ?thesis
    using assms by (simp add: serve_ready [OF assms(1) sc] worker_defs ready_def)
qed

lemma serve_post:
  assumes "ready p" and "p_agent p = Some a"
  shows "serve (step_msg ''post_interaction'' t n) [] p =
         p\<lparr>p_loc := AtBarrier, p_agent := Some (agent_call (PostInteraction t n) a),
           p_trace := p_trace p @ [Recv (step_msg ''post_interaction'' t n), Call (PostInteraction t n), Wait]\<rparr>"
proof -
  from assms(1) obtain sc where sc: "p_scope p = Some sc" by (auto simp: ready_def)
  show ?thesis
    using assms by (simp add: serve_ready [OF assms(1) sc] worker_defs ready_def)
qed

lemma serve_act:
  assumes "ready p" and "p_agent p = Some a" and "p_scope p = Some sc"
  shows "serve (step_msg ''act'' t n) [TensorItem states] p =
         (let s = py_slice states (fst sc) (snd sc); acts = fst (agent_act a (agent_calls a) s t n) in
         p\<lparr>p_queue := [TensorItem acts], p_loc := AtBarrier, p_agent := Some (agent_call (Act s t n) a),
           p_states := Some s, p_actions := Some acts,
           p_trace := p_trace p @ [Recv (step_msg ''act'' t n), QueueGet (TensorItem states), Call (Act s t n),
              QueuePut (TensorItem acts), Wait]\<rparr>)"
  using assms by (simp add: serve_ready [OF assms(1,3)] worker_defs ready_def Let_def)

lemma serve_record:
  assumes "ready p" and "p_agent p = Some a" and "p_scope p = Some sc"
  shows "serve (step_msg ''record_transition'' t n) (transition_items r ns d i) p =
         (let c = RecordTransition (p_states p) (p_actions p) (py_slice r (fst sc) (snd sc))
                    (py_slice ns (fst sc) (snd sc)) (py_slice d (fst sc) (snd sc)) (InfoArg i) t n in
         p\<lparr>p_loc := AtBarrier, p_agent := Some (agent_call c a),
           p_trace := p_trace p @ [Recv (step_msg ''record_transition'' t n), QueueGet (TensorItem r),
              QueueGet (TensorItem ns), QueueGet (TensorItem d), QueueGet (InfoItem i), Call c, Wait]\<rparr>)"
  using assms by (simp add: serve_ready [OF assms(1,3)] worker_defs ready_def Let_def transition_items_def)

lemma serve_eval:
  assumes "ready p" and "p_agent p = Some a" and "p_scope p = Some sc"
    and "super_method def_record_transition a = Some rt"
    and "super_method def_post_interaction a = Some pt"
  shows "serve (step_msg ''eval-record_transition-post_interaction'' t n) (transition_items r ns d i) p =
         (let c = SuperRecordTransition rt (p_states p) (p_actions p) (py_slice r (fst sc) (snd sc))
                    (py_slice ns (fst sc) (snd sc)) (py_slice d (fst sc) (snd sc)) (InfoArg i) t n in
         p\<lparr>p_loc := AtBarrier, p_agent := Some (agent_call (SuperPostInteraction pt t n) (agent_call c a)),
           p_trace := p_trace p @ [Recv (step_msg ''eval-record_transition-post_interaction'' t n), QueueGet (TensorItem r),
              QueueGet (TensorItem ns), QueueGet (TensorItem d), QueueGet (InfoItem i), Call c,
              Call (SuperPostInteraction pt t n), Wait]\<rparr>)"
  using assms by (simp add: serve_ready [OF assms(1,3)] worker_defs ready_def Let_def transition_items_def)

lemma serve_eval_no_record:
  assumes "ready p" and "p_agent p = Some a" and "p_scope p = Some sc"
    and "super_method def_record_transition a = None"
  shows "p_loc (serve (step_msg ''eval-record_transition-post_interaction'' t n) (transition_items r ns d i) p)
         = Crashed"
  using assms by (simp add: serve_ready [OF assms(1,3)] worker_defs ready_def Let_def transition_items_def)

lemma filter_all: "list_all P xs \<Longrightarrow> filter P xs = xs"
  by (induction xs) auto

lemma barrier_broadcast:
  assumes "list_all (\<lambda>p. p_loc (serve m xs p) = AtBarrier) (c_procs c)"
    and "c_parties c = length (c_procs c) + 1"
  shows "barrier_wait (broadcast m xs c) =
         Inr (c\<lparr>c_procs := map (served m xs) (c_procs c),
                c_trace := c_trace c @ concat (map (send_events m xs) [0..<length (c_procs c)]) @ [BarrierWait]\<rparr>)"
proof -
  let ?ps = "map fn_processor (map (send_put m xs) (c_procs c))"
  have all: "list_all (\<lambda>p. p_loc p = AtBarrier) ?ps"
    using assms(1) by (simp add: list_all_iff serve_def)
  have len: "length (filter (\<lambda>p. p_loc p = AtBarrier) ?ps) = length (c_procs c)"
    using filter_all [OF all] by simp
  have m: "map release ?ps = map (served m xs) (c_procs c)"
    by (simp add: served_def serve_def)
  show ?thesis
    unfolding barrier_wait_def broadcast_def Let_def c_note_def
    using all len m assms(2) by simp
qed

lemma those_map_Some: "those (map Some xs) = Some xs"
  by (induction xs) auto

lemma gather_tensors:
  assumes "list_all (\<lambda>p. p_queue p = [TensorItem (f p)]) (c_procs c)" and "c_procs c \<noteq> []"
    and "uniform (concat (map f (c_procs c)))"
  shows "gather c =
         Inr (concat (map f (c_procs c)),
              c\<lparr>c_procs := map take_item (c_procs c),
                c_trace := c_trace c @ map (\<lambda>(i, x). Get i x)
                   (zip [0..<length (c_procs c)] (map (\<lambda>p. TensorItem (f p)) (c_procs c)))\<rparr>)"
proof -
  have ne: "\<not> list_ex (\<lambda>p. p_queue p = []) (c_procs c)"
    using assms(1) by (auto simp: list_all_iff list_ex_iff)
  have hd: "map (\<lambda>p. hd (p_queue p)) (c_procs c) = map (\<lambda>p. TensorItem (f p)) (c_procs c)"
    using assms(1) by (auto simp: list_all_iff)
  have "item_tensor \<circ> (\<lambda>p. TensorItem (f p)) = Some \<circ> f"
    by (simp add: fun_eq_iff)
  then have th: "those (map (item_tensor \<circ> (\<lambda>p. TensorItem (f p))) (c_procs c)) = Some (map f (c_procs c))"
    using those_map_Some [of "map f (c_procs c)"] by simp
  show ?thesis
    unfolding gather_def using ne assms(2,3) by (simp add: hd th Let_def vstack_def c_note_def)
qed

lemma gather_ragged:
  assumes "list_all (\<lambda>p. p_queue p = [TensorItem (f p)]) (c_procs c)"
    and "\<not> uniform (concat (map f (c_procs c)))"
  shows "gather c = Inl Raised"
proof -
  have ne: "\<not> list_ex (\<lambda>p. p_queue p = []) (c_procs c)"
    using assms(1) by (auto simp: list_all_iff list_ex_iff)
  have hd: "map (\<lambda>p. hd (p_queue p)) (c_procs c) = map (\<lambda>p. TensorItem (f p)) (c_procs c)"
    using assms(1) by (auto simp: list_all_iff)
  have "item_tensor \<circ> (\<lambda>p. TensorItem (f p)) = Some \<circ> f"
    by (simp add: fun_eq_iff)
  then have th: "those (map (item_tensor \<circ> (\<lambda>p. TensorItem (f p))) (c_procs c)) = Some (map f (c_procs c))"
    using those_map_Some [of "map f (c_procs c)"] by simp
  show ?thesis
    unfolding gather_def using ne assms(2) by (simp add: hd th Let_def vstack_def c_note_def)
qed

lemma ready_agent: "ready p \<Longrightarrow> \<exists>a sc. p_agent p = Some a \<and> p_scope p = Some sc"
  by (auto simp: ready_def)

lemma served_pre:
  assumes "ready p" and "p_agent p = Some a"
  shows "served (step_msg ''pre_interaction'' t n) [] p =
         p\<lparr>p_agent := Some (agent_call (PreInteraction t n) a),
           p_trace := p_trace p @ [Recv (step_msg ''pre_interaction'' t n), Call (PreInteraction t n), Wait]\<rparr>"
  using assms by (cases p) (simp add: served_def serve_pre release_def ready_def)

lemma served_post:
  assumes "ready p" and "p_agent p = Some a"
  shows "served (step_msg ''post_interaction'' t n) [] p =
         p\<lparr>p_agent := Some (agent_call (PostInteraction t n) a),
           p_trace := p_trace p @ [Recv (step_msg ''post_interaction'' t n), Call (PostInteraction t n), Wait]\<rparr>"
  using assms by (cases p) (simp add: served_def serve_post release_def ready_def)

lemma acted_ready:
  assumes "ready p" and "p_agent p = Some a" and "p_scope p = Some sc"
  shows "acted states t n p =
         (let s = py_slice states (fst sc) (snd sc); acts = fst (agent_act a (agent_calls a) s t n) in
         p\<lparr>p_agent := Some (agent_call (Act s t n) a),
           p_states := Some s, p_actions := Some acts,
           p_trace := p_trace p @ [Recv (step_msg ''act'' t n), QueueGet (TensorItem states), Call (Act s t n),
              QueuePut (TensorItem acts), Wait]\<rparr>)"
  using assms
  by (cases p) (simp add: acted_def served_def serve_act release_def ready_def take_item_def Let_def)

lemma action_slice_ready:
  assumes "ready p" and "p_agent p = Some a" and "p_scope p = Some sc"
  shows "action_slice states t n p = fst (agent_act a (agent_calls a) (py_slice states (fst sc) (snd sc)) t n)"
  using assms
  by (simp add: action_slice_def served_def serve_act release_def cached_actions_def Let_def)

lemma served_act_queue:
  assumes "ready p"
  shows "p_queue (served (step_msg ''act'' t n) [TensorItem states] p) = [TensorItem (action_slice states t n p)]"
proof -
  from ready_agent [OF assms] obtain a sc where "p_agent p = Some a" "p_scope p = Some sc" by blast
  then show ?thesis
    using assms by (simp add: action_slice_def served_def serve_act release_def cached_actions_def Let_def)
qed

lemma served_record:
  assumes "ready p" and "p_agent p = Some a" and "p_scope p = Some sc"
  shows "served (step_msg ''record_transition'' t n) (transition_items r ns d i) p =
         (let c = RecordTransition (p_states p) (p_actions p) (py_slice r (fst sc) (snd sc))
                    (py_slice ns (fst sc) (snd sc)) (py_slice d (fst sc) (snd sc)) (InfoArg i) t n in
         p\<lparr>p_agent := Some (agent_call c a),
           p_trace := p_trace p @ [Recv (step_msg ''record_transition'' t n), QueueGet (TensorItem r),
              QueueGet (TensorItem ns), QueueGet (TensorItem d), QueueGet (InfoItem i), Call c, Wait]\<rparr>)"
  using assms by (cases p) (simp add: served_def serve_record release_def ready_def Let_def)

lemma served_eval:
  assumes "ready p" and "p_agent p = Some a" and "p_scope p = Some sc"
    and "super_method def_record_transition a = Some rt"
    and "super_method def_post_interaction a = Some pt"
  shows "served (step_msg ''eval-record_transition-post_interaction'' t n) (transition_items r ns d i) p =
         (let c = SuperRecordTransition rt (p_states p) (p_actions p) (py_slice r (fst sc) (snd sc))
                    (py_slice ns (fst sc) (snd sc)) (py_slice d (fst sc) (snd sc)) (InfoArg i) t n in
         p\<lparr>p_agent := Some (agent_call (SuperPostInteraction pt t n) (agent_call c a)),
           p_trace := p_trace p @ [Recv (step_msg ''eval-record_transition-post_interaction'' t n), QueueGet (TensorItem r),
              QueueGet (TensorItem ns), QueueGet (TensorItem d), QueueGet (InfoItem i), Call c,
              Call (SuperPostInteraction pt t n), Wait]\<rparr>)"
  unfolding served_def serve_eval [OF assms]
  using assms(1) by (cases p) (simp add: release_def ready_def Let_def)

lemma proc_ok_super:
  assumes "proc_ok True D A p" and "p_agent p = Some a"
  shows "\<exists>rt pt. super_method def_record_transition a = Some rt \<and>
                 super_method def_post_interaction a = Some pt"
  using assms by (auto simp: proc_ok_def agent_ok_def super_ok_def)

lemma agent_ok_call: "agent_ok ev D A (agent_call k a) = agent_ok ev D A a"
  by (simp add: agent_ok_def acts_width_def super_ok_def super_method_def agent_call_def)

lemma ready_served_pre: "ready p \<Longrightarrow> ready (served (step_msg ''pre_interaction'' t n) [] p)"
  using ready_agent [of p] by (auto simp: served_pre) (simp add: ready_def)

lemma ready_served_post: "ready p \<Longrightarrow> ready (served (step_msg ''post_interaction'' t n) [] p)"
  using ready_agent [of p] by (auto simp: served_post) (simp add: ready_def)

lemma ready_acted: "ready p \<Longrightarrow> ready (acted states t n p)"
  using ready_agent [of p] by (auto simp: acted_ready Let_def) (simp add: ready_def)

lemma ready_served_record:
  "ready p \<Longrightarrow> ready (served (step_msg ''record_transition'' t n) (transition_items r ns d i) p)"
  using ready_agent [of p] by (auto simp: served_record Let_def) (simp add: ready_def)

lemma ready_served_eval:
  assumes "ready p" and "proc_ok True D A p"
  shows "ready (served (step_msg ''eval-record_transition-post_interaction'' t n) (transition_items r ns d i) p)"
proof -
  from ready_agent [OF assms(1)] obtain a sc where a: "p_agent p = Some a" and sc: "p_scope p = Some sc"
    by blast
  from proc_ok_super [OF assms(2) a] obtain rt pt where
    s: "super_method def_record_transition a = Some rt" "super_method def_post_interaction a = Some pt"
    by blast
  show ?thesis
    using assms(1) by (simp add: served_eval [OF assms(1) a sc s] Let_def ready_def)
qed

lemma proc_ok_served_pre:
  "ready p \<Longrightarrow> proc_ok ev D A p \<Longrightarrow> proc_ok ev D A (served (step_msg ''pre_interaction'' t n) [] p)"
  using ready_agent [of p] by (auto simp: served_pre proc_ok_def agent_ok_call)

lemma proc_ok_served_post:
  "ready p \<Longrightarrow> proc_ok ev D A p \<Longrightarrow> proc_ok ev D A (served (step_msg ''post_interaction'' t n) [] p)"
  using ready_agent [of p] by (auto simp: served_post proc_ok_def agent_ok_call)

lemma proc_ok_acted:
  "ready p \<Longrightarrow> proc_ok ev D A p \<Longrightarrow> proc_ok ev D A (acted states t n p)"
  using ready_agent [of p] by (auto simp: acted_ready Let_def proc_ok_def agent_ok_call)

lemma proc_ok_served_record:
  "ready p \<Longrightarrow> proc_ok ev D A p \<Longrightarrow>
   proc_ok ev D A (served (step_msg ''record_transition'' t n) (transition_items r ns d i) p)"
  using ready_agent [of p] by (auto simp: served_record Let_def proc_ok_def agent_ok_call)

lemma proc_ok_served_eval:
  assumes "ready p" and "proc_ok True D A p"
  shows "proc_ok True D A
           (served (step_msg ''eval-record_transition-post_interaction'' t n) (transition_items r ns d i) p)"
proof -
  from ready_agent [OF assms(1)] obtain a sc where a: "p_agent p = Some a" and sc: "p_scope p = Some sc"
    by blast
  from proc_ok_super [OF assms(2) a] obtain rt pt where
    s: "super_method def_record_transition a = Some rt" "super_method def_post_interaction a = Some pt"
    by blast
  show ?thesis
    using assms(2) a by (simp add: served_eval [OF assms(1) a sc s] Let_def proc_ok_def agent_ok_call)
qed

lemma at_barrier_pre: "ready p \<Longrightarrow> p_loc (serve (step_msg ''pre_interaction'' t n) [] p) = AtBarrier"
  using ready_agent [of p] by (auto simp: serve_pre)

lemma at_barrier_post: "ready p \<Longrightarrow> p_loc (serve (step_msg ''post_interaction'' t n) [] p) = AtBarrier"
  using ready_agent [of p] by (auto simp: serve_post)

lemma at_barrier_act: "ready p \<Longrightarrow> p_loc (serve (step_msg ''act'' t n) [TensorItem states] p) = AtBarrier"
  using ready_agent [of p] by (auto simp: serve_act Let_def)

lemma at_barrier_record:
  "ready p \<Longrightarrow> p_loc (serve (step_msg ''record_transition'' t n) (transition_items r ns d i) p) = AtBarrier"
  using ready_agent [of p] by (auto simp: serve_record Let_def)

lemma at_barrier_eval:
  assumes "ready p" and "proc_ok True D A p"
  shows "p_loc (serve (step_msg ''eval-record_transition-post_interaction'' t n) (transition_items r ns d i) p) = AtBarrier"
proof -
  from ready_agent [OF assms(1)] obtain a sc where a: "p_agent p = Some a" and sc: "p_scope p = Some sc"
    by blast
  from proc_ok_super [OF assms(2) a] obtain rt pt where
    s: "super_method def_record_transition a = Some rt" "super_method def_post_interaction a = Some pt"
    by blast
  show ?thesis
    by (simp add: serve_eval [OF assms(1) a sc s] Let_def)
qed

lemma phase:
  assumes "quiescent c" and "\<And>p. ready p \<Longrightarrow> p_loc (serve m xs p) = AtBarrier"
  shows "barrier_wait (broadcast m xs c) =
         Inr (c\<lparr>c_procs := map (served m xs) (c_procs c),
                c_trace := c_trace c @ bcast (length (c_procs c)) m xs\<rparr>)"
proof -
  have "list_all (\<lambda>p. p_loc (serve m xs p) = AtBarrier) (c_procs c)"
    using assms by (simp add: quiescent_def list_all_iff)
  then show ?thesis
    using assms(1) by (simp add: barrier_broadcast quiescent_def bcast_def)
qed

lemma phase_if:
  assumes "quiescent c" and "list_all P (c_procs c)"
    and "\<And>p. ready p \<Longrightarrow> P p \<Longrightarrow> p_loc (serve m xs p) = AtBarrier"
  shows "barrier_wait (broadcast m xs c) =
         Inr (c\<lparr>c_procs := map (served m xs) (c_procs c),
                c_trace := c_trace c @ bcast (length (c_procs c)) m xs\<rparr>)"
proof -
  have "list_all (\<lambda>p. p_loc (serve m xs p) = AtBarrier) (c_procs c)"
    using assms by (simp add: quiescent_def list_all_iff)
  then show ?thesis
    using assms(1) by (simp add: barrier_broadcast quiescent_def bcast_def)
qed

lemma quiescent_map:
  assumes "quiescent c" and "\<And>p. ready p \<Longrightarrow> ready (f p)"
  shows "quiescent (c\<lparr>c_procs := map f (c_procs c), c_trace := tr\<rparr>)"
  using assms by (simp add: quiescent_def list_all_iff)

lemma quiescent_map_if:
  assumes "quiescent c" and "list_all P (c_procs c)" and "\<And>p. ready p \<Longrightarrow> P p \<Longrightarrow> ready (f p)"
  shows "quiescent (c\<lparr>c_procs := map f (c_procs c), c_trace := tr\<rparr>)"
  using assms by (simp add: quiescent_def list_all_iff)

lemma quiescent_env: "quiescent (c\<lparr>c_env := e\<rparr>) = quiescent c"
  by (simp add: quiescent_def)

lemma quiescent_trace: "quiescent (c\<lparr>c_trace := e\<rparr>) = quiescent c"
  by (simp add: quiescent_def)

lemma compute_actions_closed:
  assumes "quiescent c" and "c_procs c \<noteq> []"
    and "uniform (concat (map (action_slice states t n) (c_procs c)))"
  shows "compute_actions t n states c =
         Inr (concat (map (action_slice states t n) (c_procs c)),
              c\<lparr>c_procs := map (acted states t n) (c_procs c),
                c_trace := c_trace c @ bcast (length (c_procs c)) (step_msg ''act'' t n) [TensorItem states]
                    @ gets (map (action_slice states t n) (c_procs c))\<rparr>)"
proof -
  let ?m = "step_msg ''act'' t n"
  let ?c1 = "c\<lparr>c_procs := map (served ?m [TensorItem states]) (c_procs c),
                c_trace := c_trace c @ bcast (length (c_procs c)) ?m [TensorItem states]\<rparr>"
  have b: "barrier_wait (broadcast ?m [TensorItem states] c) = Inr ?c1"
    using assms(1) by (rule phase) (rule at_barrier_act)
  have q: "list_all (\<lambda>p. p_queue p = [TensorItem (cached_actions p)]) (c_procs ?c1)"
    using assms(1) served_act_queue
    by (simp add: quiescent_def list_all_iff action_slice_def)
  have ne: "c_procs ?c1 \<noteq> []" using assms(2) by simp
  have f1: "(\<lambda>x. cached_actions (served ?m [TensorItem states] x)) = action_slice states t n"
    by (rule ext) (simp add: action_slice_def)
  have f2: "(\<lambda>x. take_item (served ?m [TensorItem states] x)) = acted states t n"
    by (rule ext) (simp add: acted_def)
  have f3: "(\<lambda>x. TensorItem (cached_actions (served ?m [TensorItem states] x)))
            = (\<lambda>x. TensorItem (action_slice states t n x))"
    by (rule ext) (simp add: action_slice_def)
  have z: "gets (map (action_slice states t n) (c_procs c))
           = map (\<lambda>(i, x). Get i x) (zip [0..<length (c_procs c)]
               (map (\<lambda>x. TensorItem (action_slice states t n x)) (c_procs c)))"
    by (simp add: gets_def zip_map2 case_prod_unfold comp_def)
  have u: "uniform (concat (map cached_actions (c_procs ?c1)))"
    using assms(3) by (simp add: comp_def f1)
  show ?thesis
    unfolding compute_actions_def b and_then_def
    using gather_tensors [OF q ne u]
    by (simp add: comp_def f1 f2 f3 z)
qed

lemma train_timestep_closed:
  assumes "quiescent c" and "c_procs c \<noteq> []"
    and "uniform (concat (map (action_slice states t (t_timesteps self))
           (map (served (step_msg ''pre_interaction'' t (t_timesteps self)) []) (c_procs c))))"
  shows "train_timestep self t ((ob, states), c) =
    (let n = t_timesteps self;
         slices = map (action_slice states t n) (map (served (step_msg ''pre_interaction'' t n) []) (c_procs c));
         out = env_step_fn (c_env c) (env_calls (c_env c)) (concat slices)
     in reset_environments (fst (snd (snd out))) (ob, states) (fst out)
          (c\<lparr>c_env := stepped_env (t_headless self) (concat slices) (c_env c),
             c_procs := map (train_worker t n states out) (c_procs c),
             c_trace := c_trace c @ train_events (length (c_procs c)) (t_headless self) t n states slices out\<rparr>))"
proof -
  let ?n = "t_timesteps self"
  let ?N = "length (c_procs c)"
  let ?pre = "step_msg ''pre_interaction'' t ?n"
  let ?rec = "step_msg ''record_transition'' t ?n"
  let ?post = "step_msg ''post_interaction'' t ?n"
  define c1 where "c1 = c\<lparr>c_procs := map (served ?pre []) (c_procs c), c_trace := c_trace c @ bcast ?N ?pre []\<rparr>"
  have p1: "barrier_wait (broadcast ?pre [] c) = Inr c1"
    unfolding c1_def using assms(1) by (rule phase) (rule at_barrier_pre)
  have q1: "quiescent c1"
    unfolding c1_def using assms(1) by (rule quiescent_map) (rule ready_served_pre)
  have ne1: "c_procs c1 \<noteq> []" using assms(2) by (simp add: c1_def)
  define slices where "slices = map (action_slice states t ?n) (c_procs c1)"
  define c2 where "c2 = c1\<lparr>c_procs := map (acted states t ?n) (c_procs c1),
      c_trace := c_trace c1 @ bcast (length (c_procs c1)) (step_msg ''act'' t ?n) [TensorItem states] @ gets slices\<rparr>"
  have u1: "uniform (concat (map (action_slice states t ?n) (c_procs c1)))"
    using assms(3) by (simp add: c1_def)
  have p2: "compute_actions t ?n states c1 = Inr (concat slices, c2)"
    unfolding c2_def slices_def using q1 ne1 u1 by (rule compute_actions_closed)
  have q2: "quiescent c2"
    unfolding c2_def using q1 by (rule quiescent_map) (rule ready_acted)
  define out where "out = env_step_fn (c_env c2) (env_calls (c_env c2)) (concat slices)"
  obtain ns r d i where out: "out = (ns, r, d, i)" by (cases out)
  define c4 where "c4 = c2\<lparr>c_env := stepped_env (t_headless self) (concat slices) (c_env c2),
      c_trace := c_trace c2 @ [EnvCall (Step (concat slices))] @ (if t_headless self then [] else [EnvCall Render])\<rparr>"
  have p4: "render_scene (t_headless self) (snd (env_step (concat slices) c2)) = c4"
    by (simp add: c4_def render_scene_def env_step_def env_do_def c_note_def stepped_env_def)
  have p3: "fst (env_step (concat slices) c2) = (ns, r, d, i)"
    using out by (simp add: env_step_def out_def)
  have q4: "quiescent c4"
    using q2 by (simp add: c4_def quiescent_def)
  define c5 where "c5 = c4\<lparr>c_procs := map (served ?rec (transition_items r ns d i)) (c_procs c4),
      c_trace := c_trace c4 @ bcast (length (c_procs c4)) ?rec (transition_items r ns d i)\<rparr>"
  have p5: "barrier_wait (broadcast ?rec (transition_items r ns d i) c4) = Inr c5"
    unfolding c5_def using q4 by (rule phase) (rule at_barrier_record)
  have q5: "quiescent c5"
    unfolding c5_def using q4 by (rule quiescent_map) (rule ready_served_record)
  define c6 where "c6 = c5\<lparr>c_procs := map (served ?post []) (c_procs c5),
      c_trace := c_trace c5 @ bcast (length (c_procs c5)) ?post []\<rparr>"
  have p6: "barrier_wait (broadcast ?post [] c5) = Inr c6"
    unfolding c6_def using q5 by (rule phase) (rule at_barrier_post)
  have run: "train_timestep self t ((ob, states), c) = reset_environments d (ob, states) ns c6"
    unfolding train_timestep_def
    by (simp add: and_then_def p1 p2 p5 p6 Let_def split_beta p3 p4 prod_eq_iff
          surjective_pairing [symmetric])
  have e: "c_env c2 = c_env c"
    by (simp add: c2_def c1_def)
  have c6: "c6 = c\<lparr>c_env := stepped_env (t_headless self) (concat slices) (c_env c),
             c_procs := map (train_worker t ?n states out) (c_procs c),
             c_trace := c_trace c @ train_events ?N (t_headless self) t ?n states slices out\<rparr>"
    by (simp add: c6_def c5_def c4_def c2_def c1_def train_worker_def out train_events_def step_events_def comp_def)
  have sl: "slices = map (action_slice states t ?n) (map (served ?pre []) (c_procs c))"
    by (simp add: slices_def c1_def)
  show ?thesis
    unfolding run c6 Let_def sl [symmetric] using out e by (simp add: out_def)
qed

lemma eval_timestep_closed:
  assumes "quiescent c" and "c_procs c \<noteq> []"
    and "uniform (concat (map (action_slice states t (t_timesteps self)) (c_procs c)))"
    and "list_all (proc_ok True D A) (c_procs c)"
  shows "eval_timestep self t ((ob, states), c) =
    (let n = t_timesteps self;
         slices = map (action_slice states t n) (c_procs c);
         out = env_step_fn (c_env c) (env_calls (c_env c)) (concat slices)
     in reset_environments (fst (snd (snd out))) (ob, states) (fst out)
          (c\<lparr>c_env := stepped_env (t_headless self) (concat slices) (c_env c),
             c_procs := map (eval_worker t n states out) (c_procs c),
             c_trace := c_trace c @ eval_events (length (c_procs c)) (t_headless self) t n states slices out\<rparr>))"
proof -
  let ?n = "t_timesteps self"
  let ?N = "length (c_procs c)"
  let ?rec = "step_msg ''eval-record_transition-post_interaction'' t ?n"
  define slices where "slices = map (action_slice states t ?n) (c_procs c)"
  define c2 where "c2 = c\<lparr>c_procs := map (acted states t ?n) (c_procs c),
      c_trace := c_trace c @ bcast ?N (step_msg ''act'' t ?n) [TensorItem states] @ gets slices\<rparr>"
  have p2: "compute_actions t ?n states c = Inr (concat slices, c2)"
    unfolding c2_def slices_def using assms(1,2,3) by (rule compute_actions_closed)
  have ok2: "list_all (proc_ok True D A) (c_procs c2)"
    using assms(1,4) by (simp add: c2_def quiescent_def list_all_iff proc_ok_acted)
  have q2: "quiescent c2"
    unfolding c2_def using assms(1) by (rule quiescent_map) (rule ready_acted)
  define out where "out = env_step_fn (c_env c2) (env_calls (c_env c2)) (concat slices)"
  obtain ns r d i where out: "out = (ns, r, d, i)" by (cases out)
  define c4 where "c4 = c2\<lparr>c_env := stepped_env (t_headless self) (concat slices) (c_env c2),
      c_trace := c_trace c2 @ [EnvCall (Step (concat slices))] @ (if t_headless self then [] else [EnvCall Render])\<rparr>"
  have p4: "render_scene (t_headless self) (snd (env_step (concat slices) c2)) = c4"
    by (simp add: c4_def render_scene_def env_step_def env_do_def c_note_def stepped_env_def)
  have p3: "fst (env_step (concat slices) c2) = (ns, r, d, i)"
    using out by (simp add: env_step_def out_def)
  have q4: "quiescent c4"
    using q2 by (simp add: c4_def quiescent_def)
  have ok4: "list_all (proc_ok True D A) (c_procs c4)"
    using ok2 by (simp add: c4_def)
  define c5 where "c5 = c4\<lparr>c_procs := map (served ?rec (transition_items r ns d i)) (c_procs c4),
      c_trace := c_trace c4 @ bcast (length (c_procs c4)) ?rec (transition_items r ns d i)\<rparr>"
  have p5: "barrier_wait (broadcast ?rec (transition_items r ns d i) c4) = Inr c5"
    unfolding c5_def using q4 ok4 by (rule phase_if) (rule at_barrier_eval)
  have run: "eval_timestep self t ((ob, states), c) = reset_environments d (ob, states) ns c5"
    unfolding eval_timestep_def
    by (simp add: and_then_def p2 p5 Let_def split_beta p3 p4 prod_eq_iff
          surjective_pairing [symmetric])
  have e: "c_env c2 = c_env c"
    by (simp add: c2_def)
  have c5: "c5 = c\<lparr>c_env := stepped_env (t_headless self) (concat slices) (c_env c),
             c_procs := map (eval_worker t ?n states out) (c_procs c),
             c_trace := c_trace c @ eval_events ?N (t_headless self) t ?n states slices out\<rparr>"
    by (simp add: c5_def c4_def c2_def eval_worker_def out eval_events_def step_events_def comp_def)
  show ?thesis
    unfolding run c5 Let_def slices_def [symmetric] using out e by (simp add: out_def)
qed

lemma fn_terminate:
  assumes "ready p"
  shows "fn_processor (send_put (task_msg ''terminate'') [] p) = terminated p"
proof -
  from ready_agent [OF assms] obtain sc where sc: "p_scope p = Some sc" by blast
  have h: "\<And>q. handle sc (task_msg ''terminate'') q = q\<lparr>p_loc := Exited\<rparr>"
    by (simp add: handle_def task_msg_def)
  have "serve (task_msg ''terminate'') [] p
        = (p\<lparr>p_queue := [], p_trace := p_trace p @ [Recv (task_msg ''terminate'')]\<rparr>)\<lparr>p_loc := Exited\<rparr>"
    by (simp only: serve_ready [OF assms sc] h)
  also have "\<dots> = terminated p"
    using assms by (cases p) (simp add: terminated_def ready_def)
  finally have "serve (task_msg ''terminate'') [] p = terminated p" .
  then show ?thesis by (simp add: serve_def)
qed

lemma shutdown_closed:
  assumes "quiescent c"
  shows "shutdown c =
         Inr (c\<lparr>c_env := (c_env c)\<lparr>env_calls := env_calls (c_env c) @ [Close]\<rparr>,
                c_procs := map terminated (c_procs c),
                c_trace := c_trace c @ map (\<lambda>i. Send i (task_msg ''terminate'')) [0..<length (c_procs c)]
                             @ map Join [0..<length (c_procs c)] @ [EnvCall Close]\<rparr>)"
proof -
  have m: "map (fn_processor \<circ> send_put (task_msg ''terminate'') []) (c_procs c) = map terminated (c_procs c)"
    using assms by (simp add: quiescent_def list_all_iff fn_terminate)
  have e: "list_all ended (map terminated (c_procs c))"
    by (simp add: list_all_iff ended_def terminated_def)
  have s: "concat (map (send_events (task_msg ''terminate'') []) [0..<length (c_procs c)])
           = map (\<lambda>i. Send i (task_msg ''terminate'')) [0..<length (c_procs c)]"
    by (induction "length (c_procs c)") (simp_all add: send_events_def)
  show ?thesis
    using e
    by (simp add: shutdown_def join_all_def broadcast_def c_note_def m and_then_def env_do_def s Let_def)
qed

lemma barrier_wait_all:
  assumes "list_all (\<lambda>p. p_loc (fn_processor p) = AtBarrier) (c_procs c)"
    and "c_parties c = length (c_procs c) + 1"
  shows "barrier_wait c =
         Inr (c\<lparr>c_procs := map (\<lambda>p. release (fn_processor p)) (c_procs c),
                c_trace := c_trace c @ [BarrierWait]\<rparr>)"
proof -
  let ?ps = "map fn_processor (c_procs c)"
  have all: "list_all (\<lambda>p. p_loc p = AtBarrier) ?ps"
    using assms(1) by (simp add: list_all_iff)
  have len: "length (filter (\<lambda>p. p_loc p = AtBarrier) ?ps) = length (c_procs c)"
    using filter_all [OF all] by simp
  show ?thesis
    unfolding barrier_wait_def Let_def c_note_def
    using all len assms(2) by (simp add: comp_def)
qed

lemma new_proc_started:
  "i < length scopes \<Longrightarrow> release (fn_processor (new_proc scopes i)) = started (scopes ! i)"
  by (simp add: new_proc_def fn_processor_def barrier_arrive_def note_event_def release_def started_def)

lemma new_proc_at_barrier:
  "i < length scopes \<Longrightarrow> p_loc (fn_processor (new_proc scopes i)) = AtBarrier"
  by (simp add: new_proc_def fn_processor_def barrier_arrive_def note_event_def)

lemma init_started:
  "release (fn_processor (send_put (task_msg ''init'') [AgentItem a] (started sc))) = initial_proc sc a"
  by (simp add: started_def send_put_def fn_processor_def handle_def task_msg_def queue_get_def
      note_event_def do_call_def barrier_arrive_def release_def initial_proc_def)

lemma init_at_barrier:
  "p_loc (fn_processor (send_put (task_msg ''init'') [AgentItem a] (started sc))) = AtBarrier"
  by (simp add: started_def send_put_def fn_processor_def handle_def task_msg_def queue_get_def
      note_event_def do_call_def barrier_arrive_def)

lemma ready_initial_proc: "ready (initial_proc sc a)"
  by (simp add: ready_def initial_proc_def)

lemma map_nth_upt: "map (\<lambda>i. f (xs ! i)) [0..<length xs] = map f xs"
proof -
  have "map (\<lambda>i. f (xs ! i)) [0..<length xs] = map f (map ((!) xs) [0..<length xs])"
    by (simp add: comp_def)
  then show ?thesis
    by (simp only: map_nth)
qed

lemma startup_closed:
  assumes "well_formed self" and "guarded \<or> list_all models_present (t_agents self)"
  shows "startup guarded self =
         Inr ((FromReset (length (env_calls (t_env self))), env_reset_fn (t_env self) (env_calls (t_env self))),
              \<lparr>c_env = (t_env self)\<lparr>env_calls := env_calls (t_env self) @ [Reset]\<rparr>,
               c_procs = map (\<lambda>(sc, a). initial_proc sc a) (zip (t_agents_scope self) (t_agents self)),
               c_parties = t_num_agents self + 1,
               c_trace = startup_events (t_num_agents self) (t_agents self)\<rparr>)"
proof -
  let ?N = "t_num_agents self"
  let ?scopes = "t_agents_scope self"
  let ?agents = "t_agents self"
  have n1: "length ?scopes = ?N" and n2: "length ?agents = ?N"
    using assms by (simp_all add: well_formed_def)
  define c1 where "c1 = \<lparr>c_env = t_env self, c_procs = map started ?scopes, c_parties = ?N + 1,
      c_trace = create_channels ?N @ map StartProcess [0..<?N] @ [BarrierWait]\<rparr>"
  have a1: "list_all (\<lambda>p. p_loc (fn_processor p) = AtBarrier) (c_procs (spawn self))"
    using n1 by (simp add: spawn_def list_all_iff new_proc_at_barrier)
  have m1: "map (\<lambda>p. release (fn_processor p)) (c_procs (spawn self)) = map started ?scopes"
  proof -
    have "map (\<lambda>p. release (fn_processor p)) (c_procs (spawn self))
          = map (\<lambda>i. started (?scopes ! i)) [0..<length ?scopes]"
      using n1 by (simp add: spawn_def new_proc_started)
    then show ?thesis by (simp only: map_nth_upt)
  qed
  have p1: "barrier_wait (spawn self) = Inr c1"
    using barrier_wait_all [OF a1] m1 by (simp add: spawn_def c1_def)
  define c2 where "c2 = init_agents ?agents c1"
  have pr2: "c_procs c2 = map (\<lambda>(sc, a). send_put (task_msg ''init'') [AgentItem a] (started sc)) (zip ?scopes ?agents)"
    using n1 n2 by (simp add: c2_def init_agents_def c_note_def c1_def zip_map1 case_prod_unfold)
  have a2: "list_all (\<lambda>p. p_loc (fn_processor p) = AtBarrier) (c_procs c2)"
    by (simp add: pr2 list_all_iff case_prod_unfold init_at_barrier)
  have par2: "c_parties c2 = length (c_procs c2) + 1"
    using n1 n2 by (simp add: pr2) (simp add: c2_def init_agents_def c_note_def c1_def)
  have m2: "map (\<lambda>p. release (fn_processor p)) (c_procs c2)
            = map (\<lambda>(sc, a). initial_proc sc a) (zip ?scopes ?agents)"
    by (simp add: pr2 case_prod_unfold init_started)
  define c3 where "c3 = c2\<lparr>c_procs := map (\<lambda>(sc, a). initial_proc sc a) (zip ?scopes ?agents),
                          c_trace := c_trace c2 @ [BarrierWait]\<rparr>"
  have p2: "barrier_wait c2 = Inr c3"
    using barrier_wait_all [OF a2 par2] by (simp add: m2 c3_def)
  have sh: "share_memory guarded (t_agents self) = Inr ()"
    using assms(2) by (auto simp: share_memory_def models_present_def [abs_def])
  have st: "startup guarded self = Inr (env_reset c3)"
    by (simp add: startup_def and_then_def sh p1 p2 c2_def [symmetric])
  have c3: "env_reset c3 = ((FromReset (length (env_calls (t_env self))), env_reset_fn (t_env self) (env_calls (t_env self))),
              \<lparr>c_env = (t_env self)\<lparr>env_calls := env_calls (t_env self) @ [Reset]\<rparr>,
               c_procs = map (\<lambda>(sc, a). initial_proc sc a) (zip ?scopes ?agents),
               c_parties = ?N + 1,
               c_trace = startup_events ?N ?agents\<rparr>)"
    using n1 n2
    by (simp add: env_reset_def env_do_def c_note_def c3_def c2_def init_agents_def c1_def startup_events_def)
  show ?thesis
    by (simp only: st c3)
qed

lemma run_loop_accum:
  assumes step: "\<And>t s. I s \<Longrightarrow> \<exists>s'. body t s = Inr s' \<and> I s' \<and> f s' = f s @ K t"
    and "I s"
  shows "\<exists>s'. run_loop body ts s = Inr s' \<and> I s' \<and> f s' = f s @ concat (map K ts)"
  using assms(2)
proof (induction ts arbitrary: s)
  case Nil
  then show ?case by simp
next
  case (Cons t ts)
  from step [OF Cons.prems, of t] obtain s1 where
    s1: "body t s = Inr s1" "I s1" "f s1 = f s @ K t" by blast
  from Cons.IH [OF s1(2)] obtain s2 where
    s2: "run_loop body ts s1 = Inr s2" "I s2" "f s2 = f s1 @ concat (map K ts)" by blast
  show ?case
    using s1 s2 by (simp add: and_then_def)
qed

lemma marks_append: "marks (xs @ ys) = marks xs @ marks ys"
  by (simp add: marks_def)

lemma marks_bcast: "marks (bcast N m xs) = phase_marks N m"
proof -
  have "\<And>i. concat (map mark_of (send_events m xs i)) = [Sent i m]"
    by (simp add: send_events_def comp_def)
  then have "concat (map mark_of (concat (map (send_events m xs) [0..<N]))) = map (\<lambda>i. Sent i m) [0..<N]"
    by (induction N) (simp_all)
  then show ?thesis
    by (simp add: marks_def bcast_def phase_marks_def)
qed

lemma marks_gets: "marks (gets slices) = []"
  by (simp add: marks_def gets_def case_prod_unfold)

lemma marks_Nil: "marks [] = []"
  by (simp add: marks_def)

lemma marks_Cons: "marks (e # es) = mark_of e @ marks es"
  by (simp add: marks_def)

lemma marks_train_events:
  "marks (train_events N headless t n states slices out) @ [StatesRenewed] = train_marks N headless n t"
  by (cases out) (simp add: train_events_def train_marks_def step_events_def marks_append marks_bcast
      marks_gets marks_Cons marks_Nil)


lemma train_worker_ready:
  assumes "ready p" and "p_agent p = Some a" and "p_scope p = Some sc"
  shows "train_worker t n states (ns, r, d, i) p =
     (let s = py_slice states (fst sc) (snd sc);
          a1 = agent_call (PreInteraction t n) a;
          acts = fst (agent_act a1 (agent_calls a1) s t n);
          rc = RecordTransition (Some s) (Some acts) (py_slice r (fst sc) (snd sc))
                 (py_slice ns (fst sc) (snd sc)) (py_slice d (fst sc) (snd sc)) (InfoArg i) t n
      in p\<lparr>p_agent := Some (agent_call (PostInteraction t n) (agent_call rc (agent_call (Act s t n) a1))),
           p_states := Some s, p_actions := Some acts,
           p_trace := p_trace p @
             [Recv (step_msg ''pre_interaction'' t n), Call (PreInteraction t n), Wait,
              Recv (step_msg ''act'' t n), QueueGet (TensorItem states), Call (Act s t n),
              QueuePut (TensorItem acts), Wait,
              Recv (step_msg ''record_transition'' t n), QueueGet (TensorItem r), QueueGet (TensorItem ns),
              QueueGet (TensorItem d), QueueGet (InfoItem i), Call rc, Wait,
              Recv (step_msg ''post_interaction'' t n), Call (PostInteraction t n), Wait]\<rparr>)"
proof -
  let ?s = "py_slice states (fst sc) (snd sc)"
  let ?a1 = "agent_call (PreInteraction t n) a"
  let ?acts = "fst (agent_act ?a1 (agent_calls ?a1) ?s t n)"
  let ?rc = "RecordTransition (Some ?s) (Some ?acts) (py_slice r (fst sc) (snd sc))
                 (py_slice ns (fst sc) (snd sc)) (py_slice d (fst sc) (snd sc)) (InfoArg i) t n"
  define p1 where "p1 = served (step_msg ''pre_interaction'' t n) [] p"
  have e1: "p1 = p\<lparr>p_agent := Some ?a1,
           p_trace := p_trace p @ [Recv (step_msg ''pre_interaction'' t n), Call (PreInteraction t n), Wait]\<rparr>"
    unfolding p1_def using assms(1,2) by (rule served_pre)
  have r1: "ready p1" unfolding p1_def using assms(1) by (rule ready_served_pre)
  have a1: "p_agent p1 = Some ?a1" and s1: "p_scope p1 = Some sc"
    using assms(3) by (simp_all add: e1)
  define p2 where "p2 = acted states t n p1"
  have e2: "p2 = p1\<lparr>p_agent := Some (agent_call (Act ?s t n) ?a1),
           p_states := Some ?s, p_actions := Some ?acts,
           p_trace := p_trace p1 @ [Recv (step_msg ''act'' t n), QueueGet (TensorItem states), Call (Act ?s t n),
              QueuePut (TensorItem ?acts), Wait]\<rparr>"
    unfolding p2_def using acted_ready [OF r1 a1 s1, of states t n] by (simp add: Let_def)
  have r2: "ready p2" unfolding p2_def using r1 by (rule ready_acted)
  have a2: "p_agent p2 = Some (agent_call (Act ?s t n) ?a1)" and s2: "p_scope p2 = Some sc"
    using s1 by (simp_all add: e2)
  define p3 where "p3 = served (step_msg ''record_transition'' t n) (transition_items r ns d i) p2"
  have e3: "p3 = p2\<lparr>p_agent := Some (agent_call ?rc (agent_call (Act ?s t n) ?a1)),
           p_trace := p_trace p2 @ [Recv (step_msg ''record_transition'' t n), QueueGet (TensorItem r),
              QueueGet (TensorItem ns), QueueGet (TensorItem d), QueueGet (InfoItem i), Call ?rc, Wait]\<rparr>"
    unfolding p3_def using served_record [OF r2 a2 s2, of t n r ns d i] by (simp add: Let_def e2)
  have r3: "ready p3" unfolding p3_def using r2 by (rule ready_served_record)
  have a3: "p_agent p3 = Some (agent_call ?rc (agent_call (Act ?s t n) ?a1))"
    by (simp add: e3)
  have e4: "served (step_msg ''post_interaction'' t n) [] p3
            = p3\<lparr>p_agent := Some (agent_call (PostInteraction t n) (agent_call ?rc (agent_call (Act ?s t n) ?a1))),
           p_trace := p_trace p3 @ [Recv (step_msg ''post_interaction'' t n), Call (PostInteraction t n), Wait]\<rparr>"
    using r3 a3 by (rule served_post)
  have "train_worker t n states (ns, r, d, i) p = served (step_msg ''post_interaction'' t n) [] p3"
    by (simp add: train_worker_def p3_def p2_def p1_def)
  then show ?thesis
    unfolding Let_def e4 by (simp add: e3 e2 e1)
qed



lemma train_worker_props:
  assumes "ready p"
  shows "ready (train_worker t n states out p) \<and>
         p_scope (train_worker t n states out p) = p_scope p \<and>
         sync (p_trace (train_worker t n states out p)) = sync (p_trace p) @ worker_timestep train_tasks n t"
proof -
  from ready_agent [OF assms] obtain a sc where a: "p_agent p = Some a" and sc: "p_scope p = Some sc"
    by blast
  obtain ns r d i where out: "out = (ns, r, d, i)" by (cases out)
  show ?thesis
    using assms unfolding out train_worker_ready [OF assms a sc] Let_def
    by (simp add: ready_def sync_def worker_timestep_def train_tasks_def)
qed

lemma train_worker_ok:
  assumes "ready p" and "proc_ok ev D A p"
  shows "proc_ok ev D A (train_worker t n states out p)"
proof -
  from ready_agent [OF assms(1)] obtain a sc where a: "p_agent p = Some a" and sc: "p_scope p = Some sc"
    by blast
  obtain ns r d i where out: "out = (ns, r, d, i)" by (cases out)
  show ?thesis
    using assms(2) a unfolding out train_worker_ready [OF assms(1) a sc] Let_def
    by (simp add: proc_ok_def agent_ok_call)
qed


lemma has_width_py_slice: "has_width D xs \<Longrightarrow> has_width D (py_slice xs a b)"
  by (auto simp: has_width_def py_slice_def Let_def list_all_iff dest!: in_set_takeD in_set_dropD)

lemma action_slice_width:
  assumes "ready p" and "proc_ok ev D A p" and "has_width D states"
  shows "has_width A (action_slice states t n p)"
proof -
  from ready_agent [OF assms(1)] obtain a sc where a: "p_agent p = Some a" and sc: "p_scope p = Some sc"
    by blast
  have "acts_width D A a"
    using assms(2) a by (simp add: proc_ok_def agent_ok_def)
  then show ?thesis
    using has_width_py_slice [OF assms(3), of "fst sc" "snd sc"]
    by (simp add: action_slice_ready [OF assms(1) a sc] acts_width_def)
qed

lemma has_width_uniform: "has_width A xs \<Longrightarrow> uniform xs"
  by (cases xs) (auto simp: has_width_def uniform_def list_all_iff)

lemma has_width_concat: "list_all (has_width A) xss \<Longrightarrow> has_width A (concat xss)"
  by (auto simp: has_width_def list_all_iff)

lemma slices_uniform:
  assumes "list_all ready ps" and "list_all (proc_ok ev D A) ps" and "has_width D states"
  shows "uniform (concat (map (action_slice states t n) ps))"
proof -
  have "list_all (has_width A) (map (action_slice states t n) ps)"
    using assms by (auto simp: list_all_iff intro: action_slice_width)
  then show ?thesis
    by (intro has_width_uniform has_width_concat)
qed


lemma copy_row_same: "length src = length dst \<Longrightarrow> copy_row dst src = Some src"
  by (simp add: copy_row_def)

lemma copy_rows_same:
  assumes "length ns = length s" and "\<forall>i<length s. length (ns ! i) = length (s ! i)"
  shows "those (map (\<lambda>(dst, src). copy_row dst src) (zip s ns)) = Some ns"
  using assms
proof (induction s ns rule: list_induct2')
  case (4 x xs y ys)
  have h: "length y = length x"
    using "4.prems"(2) by (auto dest: spec [of _ 0])
  have t: "\<forall>i<length xs. length (ys ! i) = length (xs ! i)"
  proof (intro allI impI)
    fix i assume "i < length xs"
    then have "Suc i < length (x # xs)" by simp
    from "4.prems"(2) [rule_format, OF this] show "length (ys ! i) = length (xs ! i)" by simp
  qed
  from "4.IH" [OF _ t] "4.prems"(1) have "those (map (\<lambda>(dst, src). copy_row dst src) (zip xs ys)) = Some ys"
    by simp
  then show ?case
    using h by (simp add: copy_row_same)
qed simp_all

lemma copy_into_same_shape:
  assumes "length ns = length s" and "\<forall>i<length s. length (ns ! i) = length (s ! i)"
  shows "copy_into s ns = Some ns"
  using assms by (simp add: copy_into_def copy_rows_same)

lemma copy_into_width:
  assumes "length ns = length s" and "has_width D s" and "has_width D ns"
  shows "copy_into s ns = Some ns"
proof (rule copy_into_same_shape [OF assms(1)])
  show "\<forall>i<length s. length (ns ! i) = length (s ! i)"
    using assms by (simp add: has_width_def list_all_length)
qed

lemma existing_more: "existing ob e \<Longrightarrow> existing ob (e\<lparr>env_calls := env_calls e @ ks\<rparr>)"
  by (cases ob) (simp add: nth_append)

lemma existing_new: "existing (FromReset (length (env_calls e))) (e\<lparr>env_calls := env_calls e @ [Reset]\<rparr>)"
  by simp

lemma reset_environments_step:
  assumes "quiescent c6" and "length (c_procs c6) = N" and "0 < N" and "length states = B"
    and "has_width D states" and "env_shape B D (c_env c6)"
    and "length ns = B" and "has_width D ns" and "list_all (proc_ok ev D A) (c_procs c6)"
    and "existing ob (c_env c6)"
  shows "\<exists>s'. reset_environments d (ob, states) ns c6 = Inr s' \<and> loop_inv N B D ev A s' \<and>
           c_procs (snd s') = c_procs c6 \<and>
           marks (c_trace (snd s')) = marks (c_trace c6) @ [StatesRenewed] \<and>
           closes (c_env (snd s')) = closes (c_env c6) \<and>
           c_parties (snd s') = c_parties c6"
proof (cases "tensor_any d")
  case True
  then show ?thesis
    using assms
    by (simp add: reset_environments_def env_reset_def env_do_def c_note_def loop_inv_def quiescent_def
        env_shape_def marks_append marks_Cons marks_Nil closes_def)
next
  case False
  have cp: "copy_into states ns = Some ns"
    using assms(4,5,7,8) by (simp add: copy_into_width)
  show ?thesis
    using False assms
    by (simp add: reset_environments_def cp c_note_def loop_inv_def quiescent_def
        marks_append marks_Cons marks_Nil)
qed

lemma closes_stepped_env: "closes (stepped_env headless a e) = closes e"
  by (simp add: closes_def stepped_env_def)

lemma env_shape_stepped_env: "env_shape B D (stepped_env headless a e) = env_shape B D e"
  by (simp add: env_shape_def stepped_env_def)

lemma train_step:
  assumes "loop_inv N B D ev A ((ob, states), c)"
  shows "\<exists>s'. train_timestep self t ((ob, states), c) = Inr s' \<and> loop_inv N B D ev A s' \<and>
     marks (c_trace (snd s')) = marks (c_trace c) @ train_marks N (t_headless self) (t_timesteps self) t \<and>
     closes (c_env (snd s')) = closes (c_env c) \<and>
     c_parties (snd s') = c_parties c \<and>
     (\<forall>j<N. sync (p_trace (c_procs (snd s') ! j))
              = sync (p_trace (c_procs c ! j)) @ worker_timestep train_tasks (t_timesteps self) t)"
proof -
  let ?n = "t_timesteps self"
  let ?pre = "served (step_msg ''pre_interaction'' t ?n) []"
  have q: "quiescent c" and N: "length (c_procs c) = N" "0 < N" and B: "length states = B"
    and W: "has_width D states" and eb: "env_shape B D (c_env c)"
    and ok: "list_all (proc_ok ev D A) (c_procs c)" and ex: "existing ob (c_env c)"
    using assms by (simp_all add: loop_inv_def)
  have ne: "c_procs c \<noteq> []" using N by auto
  have r: "list_all ready (c_procs c)" using q by (simp add: quiescent_def)
  have r1: "list_all ready (map ?pre (c_procs c))"
    using r by (simp add: list_all_iff ready_served_pre)
  have ok1: "list_all (proc_ok ev D A) (map ?pre (c_procs c))"
    using r ok by (simp add: list_all_iff proc_ok_served_pre)
  have u: "uniform (concat (map (action_slice states t ?n) (map ?pre (c_procs c))))"
    using r1 ok1 W by (rule slices_uniform)
  define slices where "slices = map (action_slice states t ?n) (map ?pre (c_procs c))"
  define out where "out = env_step_fn (c_env c) (env_calls (c_env c)) (concat slices)"
  define c6 where "c6 = c\<lparr>c_env := stepped_env (t_headless self) (concat slices) (c_env c),
             c_procs := map (train_worker t ?n states out) (c_procs c),
             c_trace := c_trace c @ train_events (length (c_procs c)) (t_headless self) t ?n states slices out\<rparr>"
  have run: "train_timestep self t ((ob, states), c)
             = reset_environments (fst (snd (snd out))) (ob, states) (fst out) c6"
    unfolding train_timestep_closed [OF q ne u] Let_def c6_def out_def slices_def ..
  have q6: "quiescent c6"
    using q by (simp add: c6_def quiescent_def list_all_iff train_worker_props)
  have ok6: "list_all (proc_ok ev D A) (c_procs c6)"
    using r ok by (simp add: c6_def list_all_iff train_worker_ok)
  have N6: "length (c_procs c6) = N" using N by (simp add: c6_def)
  have eb6: "env_shape B D (c_env c6)" using eb by (simp add: c6_def env_shape_stepped_env)
  have ns: "length (fst out) = B" "has_width D (fst out)" using eb by (simp_all add: out_def env_shape_def)
  have ex6: "existing ob (c_env c6)"
    using ex by (simp add: c6_def stepped_env_def existing_more)
  from reset_environments_step [OF q6 N6 N(2) B W eb6 ns ok6 ex6, of "fst (snd (snd out))"]
  obtain s' where s': "reset_environments (fst (snd (snd out))) (ob, states) (fst out) c6 = Inr s'"
    "loop_inv N B D ev A s'" "c_procs (snd s') = c_procs c6"
    "marks (c_trace (snd s')) = marks (c_trace c6) @ [StatesRenewed]"
    "closes (c_env (snd s')) = closes (c_env c6)" "c_parties (snd s') = c_parties c6"
    by blast
  have m: "marks (c_trace (snd s')) = marks (c_trace c) @ train_marks N (t_headless self) ?n t"
    using s'(4) N by (simp add: c6_def marks_append marks_train_events)
  have w: "\<forall>j<N. sync (p_trace (c_procs (snd s') ! j))
              = sync (p_trace (c_procs c ! j)) @ worker_timestep train_tasks ?n t"
  proof (intro allI impI)
    fix j assume j: "j < N"
    then have "ready (c_procs c ! j)"
      using q N by (simp add: quiescent_def list_all_length)
    then show "sync (p_trace (c_procs (snd s') ! j))
              = sync (p_trace (c_procs c ! j)) @ worker_timestep train_tasks ?n t"
      using j N by (simp add: s'(3) c6_def train_worker_props)
  qed
  show ?thesis
    using run s'(1,2,5,6) m w by (simp add: c6_def closes_stepped_env)
qed


lemma run_loop_steps:
  assumes step: "\<And>t s. loop_inv N B D ev A s \<Longrightarrow>
      \<exists>s'. body t s = Inr s' \<and> loop_inv N B D ev A s' \<and>
        marks (c_trace (snd s')) = marks (c_trace (snd s)) @ M t \<and>
        closes (c_env (snd s')) = closes (c_env (snd s)) \<and>
        c_parties (snd s') = c_parties (snd s) \<and>
        (\<forall>j<N. sync (p_trace (c_procs (snd s') ! j)) = sync (p_trace (c_procs (snd s) ! j)) @ W t)"
    and "loop_inv N B D ev A s"
  shows "\<exists>s'. run_loop body ts s = Inr s' \<and> loop_inv N B D ev A s' \<and>
        marks (c_trace (snd s')) = marks (c_trace (snd s)) @ concat (map M ts) \<and>
        closes (c_env (snd s')) = closes (c_env (snd s)) \<and>
        c_parties (snd s') = c_parties (snd s) \<and>
        (\<forall>j<N. sync (p_trace (c_procs (snd s') ! j))
                 = sync (p_trace (c_procs (snd s) ! j)) @ concat (map W ts))"
  using assms(2)
proof (induction ts arbitrary: s)
  case Nil
  then show ?case by simp
next
  case (Cons t ts)
  from step [OF Cons.prems, of t] obtain s1 where
    s1: "body t s = Inr s1" "loop_inv N B D ev A s1"
      "marks (c_trace (snd s1)) = marks (c_trace (snd s)) @ M t"
      "closes (c_env (snd s1)) = closes (c_env (snd s))"
      "c_parties (snd s1) = c_parties (snd s)"
      "\<forall>j<N. sync (p_trace (c_procs (snd s1) ! j)) = sync (p_trace (c_procs (snd s) ! j)) @ W t"
    by blast
  from Cons.IH [OF s1(2)] obtain s2 where
    s2: "run_loop body ts s1 = Inr s2" "loop_inv N B D ev A s2"
      "marks (c_trace (snd s2)) = marks (c_trace (snd s1)) @ concat (map M ts)"
      "closes (c_env (snd s2)) = closes (c_env (snd s1))"
      "c_parties (snd s2) = c_parties (snd s1)"
      "\<forall>j<N. sync (p_trace (c_procs (snd s2) ! j)) = sync (p_trace (c_procs (snd s1) ! j)) @ concat (map W ts)"
    by blast
  show ?case
    using s1 s2 by (simp add: and_then_def)
qed

lemma marks_map_none:
  assumes "\<And>x. mark_of (f x) = []"
  shows "marks (map f xs) = []"
  using assms by (induction xs) (simp_all add: marks_def)

lemma marks_create_channels: "marks (create_channels N) = []"
proof -
  have "concat (map mark_of (concat (map (\<lambda>i. [CreatePipe i, CreateQueue i]) [0..<N]))) = []"
    by (induction N) simp_all
  then show ?thesis
    by (simp add: create_channels_def marks_def)
qed

lemma marks_init_sends:
  assumes "length agents = N"
  shows "marks (concat (map (\<lambda>(i, a). send_events (task_msg ''init'') [AgentItem a] i) (zip [0..<N] agents)))
         = map (\<lambda>i. Sent i (task_msg ''init'')) [0..<N]"
proof -
  have "\<And>zs :: (nat \<times> agent) list.
          marks (concat (map (\<lambda>(i, a). send_events (task_msg ''init'') [AgentItem a] i) zs))
          = map (\<lambda>i. Sent i (task_msg ''init'')) (map fst zs)"
    subgoal for zs
      by (induction zs) (auto simp: marks_def send_events_def)
    done
  then show ?thesis
    using assms by (simp del: map_map)
qed

lemma marks_startup_events:
  assumes "length agents = N"
  shows "marks (startup_events N agents) = startup_marks N"
  using marks_init_sends [OF assms]
  by (simp add: startup_events_def startup_marks_def marks_append marks_create_channels
      marks_map_none marks_Cons marks_Nil phase_marks_def)

lemma marks_shutdown_events:
  "marks (map (\<lambda>i. Send i (task_msg ''terminate'')) [0..<N] @ map Join [0..<N] @ [EnvCall Close])
   = shutdown_marks N"
proof -
  have a: "marks (map (\<lambda>i. Send i (task_msg ''terminate'')) [0..<N]) = map (\<lambda>i. Sent i (task_msg ''terminate'')) [0..<N]"
    by (induction N) (simp_all add: marks_def)
  have b: "marks (map Join [0..<N]) = map Joined [0..<N]"
    by (induction N) (simp_all add: marks_def)
  show ?thesis
    by (simp add: marks_append a b shutdown_marks_def marks_Cons marks_Nil)
qed

lemma sync_initial_proc: "sync (p_trace (initial_proc sc a)) = [Wait, Recv (task_msg ''init''), Wait]"
  by (simp add: initial_proc_def sync_def)

lemma proc_ok_initial_proc: "proc_ok ev D A (initial_proc sc a) = agent_ok ev D A a"
  by (simp add: proc_ok_def initial_proc_def agent_ok_call)

lemma startup_inv:
  assumes "well_formed self" and "env_shape B D (t_env self)"
    and "list_all (agent_ok ev D A) (t_agents self)"
    and "guarded \<or> list_all models_present (t_agents self)"
  shows "\<exists>s0. startup guarded self = Inr s0 \<and> loop_inv (t_num_agents self) B D ev A s0 \<and>
           marks (c_trace (snd s0)) = startup_marks (t_num_agents self) \<and>
           closes (c_env (snd s0)) = closes (t_env self) \<and>
           c_parties (snd s0) = t_num_agents self + 1 \<and>
           (\<forall>j<t_num_agents self. sync (p_trace (c_procs (snd s0) ! j)) = [Wait, Recv (task_msg ''init''), Wait])"
proof -
  let ?N = "t_num_agents self"
  have n1: "length (t_agents_scope self) = ?N" and n2: "length (t_agents self) = ?N" and n3: "0 < ?N"
    using assms(1) by (auto simp: well_formed_def)
  have r: "list_all ready (map (\<lambda>(sc, a). initial_proc sc a) (zip (t_agents_scope self) (t_agents self)))"
    by (simp add: list_all_iff case_prod_unfold ready_initial_proc)
  have k: "list_all (proc_ok ev D A)
             (map (\<lambda>(sc, a). initial_proc sc a) (zip (t_agents_scope self) (t_agents self)))"
    using assms(3) by (auto simp: list_all_iff proc_ok_initial_proc dest: set_zip_rightD)
  have s: "\<forall>j<?N. sync (p_trace (map (\<lambda>(sc, a). initial_proc sc a) (zip (t_agents_scope self) (t_agents self)) ! j))
            = [Wait, Recv (task_msg ''init''), Wait]"
    using n1 n2 by (simp add: case_prod_unfold sync_initial_proc)
  show ?thesis
    unfolding startup_closed [OF assms(1,4)]
    using r k s n1 n2 n3 assms(2)
    by (simp add: loop_inv_def quiescent_def env_shape_def marks_startup_events closes_def)
qed

lemma parallel_run:
  assumes wf: "well_formed self" and eb: "env_shape B D (t_env self)"
    and ok: "list_all (agent_ok ev D A) (t_agents self)"
    and g: "guarded \<or> list_all models_present (t_agents self)"
    and N: "N = t_num_agents self"
    and step: "\<And>t s. loop_inv N B D ev A s \<Longrightarrow>
      \<exists>s'. body t s = Inr s' \<and> loop_inv N B D ev A s' \<and>
        marks (c_trace (snd s')) = marks (c_trace (snd s)) @ M t \<and>
        closes (c_env (snd s')) = closes (c_env (snd s)) \<and>
        c_parties (snd s') = c_parties (snd s) \<and>
        (\<forall>j<N. sync (p_trace (c_procs (snd s') ! j)) = sync (p_trace (c_procs (snd s) ! j)) @ W t)"
  shows "\<exists>c. and_then (startup guarded self)
               (\<lambda>sc. and_then (run_loop body ts sc) (\<lambda>(sv, c). shutdown c)) = Inr c \<and>
      marks (c_trace c) = startup_marks N @ concat (map M ts) @ shutdown_marks N \<and>
      closes (c_env c) = Suc (closes (t_env self)) \<and>
      last (env_calls (c_env c)) = Close \<and>
      c_parties c = N + 1 \<and> length (c_procs c) = N \<and>
      (\<forall>j<N. sync (p_trace (c_procs c ! j))
                = [Wait, Recv (task_msg ''init''), Wait] @ concat (map W ts) @ [Recv (task_msg ''terminate'')]
              \<and> p_loc (c_procs c ! j) = Exited)"
proof -
  from startup_inv [OF wf eb ok g] obtain s0 where
    s0: "startup guarded self = Inr s0" "loop_inv N B D ev A s0"
      "marks (c_trace (snd s0)) = startup_marks N"
      "closes (c_env (snd s0)) = closes (t_env self)"
      "c_parties (snd s0) = N + 1"
      "\<forall>j<N. sync (p_trace (c_procs (snd s0) ! j)) = [Wait, Recv (task_msg ''init''), Wait]"
    unfolding N by blast
  from run_loop_steps [of N B D ev A body M W, OF step s0(2), of ts] obtain s1 where
    s1: "run_loop body ts s0 = Inr s1" "loop_inv N B D ev A s1"
      "marks (c_trace (snd s1)) = marks (c_trace (snd s0)) @ concat (map M ts)"
      "closes (c_env (snd s1)) = closes (c_env (snd s0))"
      "c_parties (snd s1) = c_parties (snd s0)"
      "\<forall>j<N. sync (p_trace (c_procs (snd s1) ! j)) = sync (p_trace (c_procs (snd s0) ! j)) @ concat (map W ts)"
    by blast
  obtain states1 c1 where sc1: "s1 = (states1, c1)" by (cases s1)
  have q1: "quiescent c1" and N1: "length (c_procs c1) = N"
    using s1(2) by (simp_all add: sc1 loop_inv_def)
  let ?c = "c1\<lparr>c_env := (c_env c1)\<lparr>env_calls := env_calls (c_env c1) @ [Close]\<rparr>,
                c_procs := map terminated (c_procs c1),
                c_trace := c_trace c1 @ map (\<lambda>i. Send i (task_msg ''terminate'')) [0..<length (c_procs c1)]
                             @ map Join [0..<length (c_procs c1)] @ [EnvCall Close]\<rparr>"
  have run: "and_then (startup guarded self)
               (\<lambda>sc. and_then (run_loop body ts sc) (\<lambda>(sv, c). shutdown c)) = Inr ?c"
    by (simp add: and_then_def s0(1) s1(1) sc1 shutdown_closed [OF q1])
  have m: "marks (c_trace ?c) = startup_marks N @ concat (map M ts) @ shutdown_marks N"
    using s1(3) s0(3) by (simp add: sc1 marks_append [of "c_trace c1"] marks_shutdown_events N1)
  have cl: "closes (c_env ?c) = Suc (closes (t_env self))"
    using s1(4) s0(4) by (simp add: sc1 closes_def)
  have w: "\<forall>j<N. sync (p_trace (c_procs ?c ! j))
                = [Wait, Recv (task_msg ''init''), Wait] @ concat (map W ts) @ [Recv (task_msg ''terminate'')]
              \<and> p_loc (c_procs ?c ! j) = Exited"
    using s1(6) s0(6) N1 by (simp add: sc1 terminated_def sync_def)
  show ?thesis
    using run m cl w s1(5) s0(5) N1 by (simp add: sc1)
qed

lemma train_run:
  assumes "well_formed self" and "env_shape B D (t_env self)"
    and "list_all (acts_width D A) (t_agents self)"
    and "list_all models_present (t_agents self)"
  shows "\<exists>c. train self = Inr c \<and>
      marks (c_trace c) = startup_marks (t_num_agents self)
         @ concat (map (train_marks (t_num_agents self) (t_headless self) (t_timesteps self))
                     (py_range (t_initial_timestep self) (t_timesteps self)))
         @ shutdown_marks (t_num_agents self) \<and>
      closes (c_env c) = Suc (closes (t_env self)) \<and>
      last (env_calls (c_env c)) = Close \<and>
      c_parties c = t_num_agents self + 1 \<and> length (c_procs c) = t_num_agents self \<and>
      (\<forall>j<t_num_agents self. sync (p_trace (c_procs c ! j))
                = [Wait, Recv (task_msg ''init''), Wait]
                  @ concat (map (worker_timestep train_tasks (t_timesteps self))
                              (py_range (t_initial_timestep self) (t_timesteps self)))
                  @ [Recv (task_msg ''terminate'')]
              \<and> p_loc (c_procs c ! j) = Exited)"
proof -
  have n: "t_num_agents self \<noteq> 1"
    using assms(1) by (simp add: well_formed_def)
  have ok: "list_all (agent_ok False D A) (t_agents self)"
    using assms(3) by (simp add: agent_ok_def list_all_iff)
  have g: "False \<or> list_all models_present (t_agents self)"
    using assms(4) by simp
  have step: "\<And>t s. loop_inv (t_num_agents self) B D False A s \<Longrightarrow>
      \<exists>s'. train_timestep self t s = Inr s' \<and> loop_inv (t_num_agents self) B D False A s' \<and>
        marks (c_trace (snd s')) = marks (c_trace (snd s))
           @ train_marks (t_num_agents self) (t_headless self) (t_timesteps self) t \<and>
        closes (c_env (snd s')) = closes (c_env (snd s)) \<and>
        c_parties (snd s') = c_parties (snd s) \<and>
        (\<forall>j<t_num_agents self. sync (p_trace (c_procs (snd s') ! j))
            = sync (p_trace (c_procs (snd s) ! j)) @ worker_timestep train_tasks (t_timesteps self) t)"
    subgoal for t s
      using train_step [of "t_num_agents self" B D False A "fst (fst s)" "snd (fst s)" "snd s" self t] by simp
    done
  show ?thesis
    unfolding train_def using n parallel_run [OF assms(1,2) ok g refl step] by simp
qed


lemma stub_parallel_wf: "well_formed stub_parallel"
  by (simp add: well_formed_def stub_parallel_def)

lemma stub_env_shape: "env_shape 4 1 stub_env"
  by (simp add: env_shape_def stub_env_def has_width_def list_all_iff)

lemma stub_agent_width: "acts_width D D stub_agent"
  by (simp add: acts_width_def stub_agent_def has_width_def list_all_iff)

lemma stub_agent_super: "super_ok stub_agent"
  by (simp add: super_ok_def super_method_def stub_agent_def base_class_def)

lemma stub_agent_models: "models_present stub_agent"
  by (simp add: models_present_def stub_agent_def)

lemma stub_parallel_agents:
  "list_all (acts_width 1 1) (t_agents stub_parallel)"
  "list_all super_ok (t_agents stub_parallel)"
  "list_all models_present (t_agents stub_parallel)"
  by (simp_all add: stub_parallel_def stub_agent_width stub_agent_super stub_agent_models)

lemma py_range_0_2: "py_range 0 2 = [0, 1]"
  by (simp add: py_range_def upto.simps)

lemma upt_2: "[0..<2] = [0, Suc 0]"
  by (simp add: upt_rec)


lemma stub_parallel_env_shape: "env_shape 4 1 (t_env stub_parallel)"
  using stub_env_shape by (simp add: stub_parallel_def)

lemma stub_proc_ready: "ready stub_proc"
  by (simp add: ready_def stub_proc_def)

lemma sent_in_eval_marks:
  assumes "Sent i m \<in> set (startup_marks N @ concat (map (eval_marks N h n) ts) @ shutdown_marks N)"
  shows "task m \<in> {''init'', ''act'', ''eval-record_transition-post_interaction'', ''terminate''}"
  using assms
  by (auto simp: startup_marks_def eval_marks_def shutdown_marks_def phase_marks_def step_msg_def
      task_msg_def split: if_splits)

lemma scenario_train_resets: "resets (train scenario) = Some [True, False, False, False, True, False]"
  by code_simp

lemma scenario_eval_resets: "resets (eval scenario) = Some [True, False, False, False, True, False]"
  by code_simp

lemma tensor_any_iff: "tensor_any d \<longleftrightarrow> (\<exists>row\<in>set d. \<exists>x\<in>set row. x \<noteq> 0)"
  by (simp add: tensor_any_def list_ex_iff)

lemma reset_environments_cases:
  "reset_environments d sv ns c =
     (if tensor_any d
      then Inr ((FromReset (length (env_calls (c_env c))), env_reset_fn (c_env c) (env_calls (c_env c))),
                c\<lparr>c_env := (c_env c)\<lparr>env_calls := env_calls (c_env c) @ [Reset]\<rparr>,
                  c_trace := c_trace c @ [EnvCall Reset]\<rparr>)
      else case copy_into (snd sv) ns of
             None \<Rightarrow> Inl Raised
           | Some rows \<Rightarrow> Inr ((fst sv, rows), c\<lparr>c_trace := c_trace c @ [CopyStates]\<rparr>))"
  by (simp add: reset_environments_def env_reset_def env_do_def c_note_def split: option.splits)

lemma train_slices_uniform:
  assumes "quiescent c" and "list_all (proc_ok ev D A) (c_procs c)" and "has_width D states"
  shows "uniform (concat (map (action_slice states t n)
           (map (served (step_msg ''pre_interaction'' t n) []) (c_procs c))))"
proof -
  have r: "list_all ready (c_procs c)" using assms(1) by (simp add: quiescent_def)
  have r1: "list_all ready (map (served (step_msg ''pre_interaction'' t n) []) (c_procs c))"
    using r by (simp add: list_all_iff ready_served_pre)
  have ok1: "list_all (proc_ok ev D A) (map (served (step_msg ''pre_interaction'' t n) []) (c_procs c))"
    using r assms(2) by (simp add: list_all_iff proc_ok_served_pre)
  show ?thesis
    using r1 ok1 assms(3) by (rule slices_uniform)
qed

lemma eval_slices_uniform:
  assumes "quiescent c" and "list_all (proc_ok ev D A) (c_procs c)" and "has_width D states"
  shows "uniform (concat (map (action_slice states t n) (c_procs c)))"
proof -
  have r: "list_all ready (c_procs c)" using assms(1) by (simp add: quiescent_def)
  show ?thesis
    using r assms(2,3) by (rule slices_uniform)
qed

lemma train_timestep_ends_with_reset_check:
  assumes "quiescent c" and "c_procs c \<noteq> []"
    and "list_all (proc_ok ev D A) (c_procs c)" and "has_width D states"
  shows "\<exists>a ns r d i c'. env_step_fn (c_env c) (env_calls (c_env c)) a = (ns, r, d, i) \<and>
           env_calls (c_env c') = env_calls (c_env c) @ Step a # (if t_headless self then [] else [Render]) \<and>
           train_timestep self t ((ob, states), c) = reset_environments d (ob, states) ns c'"
proof -
  let ?n = "t_timesteps self"
  note u = train_slices_uniform [OF assms(1,3,4), of t ?n]
  define slices where "slices = map (action_slice states t ?n) (map (served (step_msg ''pre_interaction'' t ?n) []) (c_procs c))"
  define out where "out = env_step_fn (c_env c) (env_calls (c_env c)) (concat slices)"
  define c6 where "c6 = c\<lparr>c_env := stepped_env (t_headless self) (concat slices) (c_env c),
             c_procs := map (train_worker t ?n states out) (c_procs c),
             c_trace := c_trace c @ train_events (length (c_procs c)) (t_headless self) t ?n states slices out\<rparr>"
  have run: "train_timestep self t ((ob, states), c)
             = reset_environments (fst (snd (snd out))) (ob, states) (fst out) c6"
    unfolding train_timestep_closed [OF assms(1,2) u] Let_def c6_def out_def slices_def ..
  have o: "env_step_fn (c_env c) (env_calls (c_env c)) (concat slices)
           = (fst out, fst (snd out), fst (snd (snd out)), snd (snd (snd out)))"
    by (simp add: out_def)
  have e: "env_calls (c_env c6) = env_calls (c_env c) @ Step (concat slices) # (if t_headless self then [] else [Render])"
    by (simp add: c6_def stepped_env_def)
  show ?thesis
    using run o e by blast
qed

lemma eval_timestep_ends_with_reset_check:
  assumes "quiescent c" and "c_procs c \<noteq> []"
    and "list_all (proc_ok True D A) (c_procs c)" and "has_width D states"
  shows "\<exists>a ns r d i c'. env_step_fn (c_env c) (env_calls (c_env c)) a = (ns, r, d, i) \<and>
           env_calls (c_env c') = env_calls (c_env c) @ Step a # (if t_headless self then [] else [Render]) \<and>
           eval_timestep self t ((ob, states), c) = reset_environments d (ob, states) ns c'"
proof -
  let ?n = "t_timesteps self"
  note u = eval_slices_uniform [OF assms(1,3,4), of t ?n]
  define slices where "slices = map (action_slice states t ?n) (c_procs c)"
  define out where "out = env_step_fn (c_env c) (env_calls (c_env c)) (concat slices)"
  define c6 where "c6 = c\<lparr>c_env := stepped_env (t_headless self) (concat slices) (c_env c),
             c_procs := map (eval_worker t ?n states out) (c_procs c),
             c_trace := c_trace c @ eval_events (length (c_procs c)) (t_headless self) t ?n states slices out\<rparr>"
  have run: "eval_timestep self t ((ob, states), c)
             = reset_environments (fst (snd (snd out))) (ob, states) (fst out) c6"
    unfolding eval_timestep_closed [OF assms(1,2) u assms(3)] Let_def c6_def out_def slices_def ..
  have o: "env_step_fn (c_env c) (env_calls (c_env c)) (concat slices)
           = (fst out, fst (snd out), fst (snd (snd out)), snd (snd (snd out)))"
    by (simp add: out_def)
  have e: "env_calls (c_env c6) = env_calls (c_env c) @ Step (concat slices) # (if t_headless self then [] else [Render])"
    by (simp add: c6_def stepped_env_def)
  show ?thesis
    using run o e by blast
qed

lemma stub_coord_quiescent: "quiescent stub_coord"
  by (simp add: quiescent_def stub_coord_def stub_proc_ready)

lemma stub_coord_procs: "c_procs stub_coord \<noteq> []"
  by (simp add: stub_coord_def)













lemma filter_one_iff:
  "length (filter P xs) = 1 \<longleftrightarrow> (\<exists>i<length xs. P (xs ! i) \<and> (\<forall>j<length xs. P (xs ! j) \<longrightarrow> j = i))"
proof -
  let ?S = "{i. i < length xs \<and> P (xs ! i)}"
  have c: "length (filter P xs) = card ?S"
    by (rule length_filter_conv_card)
  show ?thesis
  proof
    assume "length (filter P xs) = 1"
    then have "card ?S = Suc 0" using c by simp
    then obtain i where i: "?S = {i}" by (auto simp: card_1_singleton_iff)
    then have "i \<in> ?S" by blast
    moreover have "\<forall>j<length xs. P (xs ! j) \<longrightarrow> j = i"
      using i by blast
    ultimately show "\<exists>i<length xs. P (xs ! i) \<and> (\<forall>j<length xs. P (xs ! j) \<longrightarrow> j = i)"
      by blast
  next
    assume "\<exists>i<length xs. P (xs ! i) \<and> (\<forall>j<length xs. P (xs ! j) \<longrightarrow> j = i)"
    then obtain i where "i < length xs" "P (xs ! i)" "\<forall>j<length xs. P (xs ! j) \<longrightarrow> j = i"
      by blast
    then have "?S = {i}" by blast
    then show "length (filter P xs) = 1" using c by simp
  qed
qed

lemma in_scope_range: "in_scope i sc \<longleftrightarrow> i \<in> {fst sc..<snd sc}"
  by (simp add: in_scope_def)

lemma tiles_iff:
  "tiles scs B \<longleftrightarrow>
     ((\<forall>sc\<in>set scs. 0 \<le> fst sc \<and> fst sc < snd sc \<and> snd sc \<le> B) \<and>
      (\<Union>sc\<in>set scs. {fst sc..<snd sc}) = {0..<B} \<and>
      (\<forall>i<length scs. \<forall>j<length scs. i \<noteq> j \<longrightarrow>
          {fst (scs ! i)..<snd (scs ! i)} \<inter> {fst (scs ! j)..<snd (scs ! j)} = {}))"
  (is "?L \<longleftrightarrow> ?ok \<and> ?cover \<and> ?disj")
proof
  assume L: ?L
  have ok: ?ok
    using L by (simp add: tiles_def list_all_iff scope_ok_def)
  have one: "\<And>x. 0 \<le> x \<Longrightarrow> x < B \<Longrightarrow>
      \<exists>i<length scs. in_scope x (scs ! i) \<and> (\<forall>j<length scs. in_scope x (scs ! j) \<longrightarrow> j = i)"
  proof -
    fix x :: int assume "0 \<le> x" "x < B"
    then have "x \<in> set [0..B - 1]" by simp
    then have "length (filter (in_scope x) scs) = 1"
      using L by (simp add: tiles_def list_all_iff)
    then show "\<exists>i<length scs. in_scope x (scs ! i) \<and> (\<forall>j<length scs. in_scope x (scs ! j) \<longrightarrow> j = i)"
      by (simp only: filter_one_iff)
  qed
  have cover: ?cover
  proof (rule set_eqI)
    fix x
    show "x \<in> (\<Union>sc\<in>set scs. {fst sc..<snd sc}) \<longleftrightarrow> x \<in> {0..<B}"
    proof
      assume "x \<in> (\<Union>sc\<in>set scs. {fst sc..<snd sc})"
      then obtain sc where "sc \<in> set scs" "fst sc \<le> x" "x < snd sc" by auto
      then show "x \<in> {0..<B}" using ok by fastforce
    next
      assume "x \<in> {0..<B}"
      then have "0 \<le> x" "x < B" by simp_all
      from one [OF this] obtain i where "i < length scs" "in_scope x (scs ! i)" by blast
      then have "scs ! i \<in> set scs" "x \<in> {fst (scs ! i)..<snd (scs ! i)}"
        by (simp_all add: in_scope_range)
      then show "x \<in> (\<Union>sc\<in>set scs. {fst sc..<snd sc})" by blast
    qed
  qed
  have disj: ?disj
  proof (intro allI impI)
    fix i j assume i: "i < length scs" and j: "j < length scs" and ne: "i \<noteq> j"
    show "{fst (scs ! i)..<snd (scs ! i)} \<inter> {fst (scs ! j)..<snd (scs ! j)} = {}"
    proof (rule ccontr)
      assume "{fst (scs ! i)..<snd (scs ! i)} \<inter> {fst (scs ! j)..<snd (scs ! j)} \<noteq> {}"
      then obtain x where "x \<in> {fst (scs ! i)..<snd (scs ! i)} \<inter> {fst (scs ! j)..<snd (scs ! j)}"
        by blast
      then have x: "in_scope x (scs ! i)" "in_scope x (scs ! j)"
        by (simp_all add: in_scope_def)
      have "scs ! i \<in> set scs" using i by simp
      then have "0 \<le> x" "x < B" using ok x(1) by (fastforce simp: in_scope_def)+
      from one [OF this] obtain k where "\<forall>l<length scs. in_scope x (scs ! l) \<longrightarrow> l = k" by blast
      then have "i = k" "j = k" using i j x by blast+
      then show False using ne by simp
    qed
  qed
  show "?ok \<and> ?cover \<and> ?disj" using ok cover disj by blast
next
  assume R: "?ok \<and> ?cover \<and> ?disj"
  then have ok: ?ok and cover: ?cover and disj: ?disj by blast+
  have a: "list_all (scope_ok B) scs"
    using ok by (simp add: list_all_iff scope_ok_def)
  have b: "list_all (\<lambda>i. length (filter (in_scope i) scs) = 1) [0..B - 1]"
    unfolding list_all_iff
  proof
    fix x assume "x \<in> set [0..B - 1]"
    then have "x \<in> {0..<B}" by simp
    then have "x \<in> (\<Union>sc\<in>set scs. {fst sc..<snd sc})" using cover by simp
    then obtain sc where sc: "sc \<in> set scs" "x \<in> {fst sc..<snd sc}" by blast
    then obtain i where i: "i < length scs" "scs ! i = sc" by (auto simp: in_set_conv_nth)
    have "\<forall>j<length scs. in_scope x (scs ! j) \<longrightarrow> j = i"
    proof (intro allI impI)
      fix j assume j: "j < length scs" and "in_scope x (scs ! j)"
      then have "x \<in> {fst (scs ! i)..<snd (scs ! i)} \<inter> {fst (scs ! j)..<snd (scs ! j)}"
        using sc i by (simp add: in_scope_def)
      then show "j = i" using disj i(1) j by blast
    qed
    moreover have "in_scope x (scs ! i)" using sc i by (simp add: in_scope_def)
    ultimately show "length (filter (in_scope x) scs) = 1"
      using i(1) by (auto simp only: filter_one_iff)
  qed
  show ?L using a b by (simp add: tiles_def)
qed

lemma scenario_valid: "validate (length (t_agents scenario)) (t_agents_scope scenario) 30 = None"
  by (simp add: scenario_def) code_simp

lemma gap_invalid: "validate 2 [(0, 10), (20, 30)] 30 = Some ConfigurationError"
  by code_simp

lemma overlap_invalid: "validate 2 [(0, 20), (10, 30)] 30 = Some ConfigurationError"
  by code_simp

lemma count_invalid: "validate 3 [(0, 10), (10, 30)] 30 = Some ConfigurationError"
  by code_simp

lemma those_Some_nth:
  "those xs = Some ys \<Longrightarrow> length ys = length xs \<and> (\<forall>i<length xs. xs ! i = Some (ys ! i))"
proof (induction xs arbitrary: ys)
  case Nil
  then show ?case by simp
next
  case (Cons x xs)
  from Cons.prems obtain y zs where x: "x = Some y" and zs: "those xs = Some zs" and ys: "ys = y # zs"
    by (auto split: option.splits)
  from Cons.IH [OF zs] have l: "length zs = length xs" and n: "\<forall>i<length xs. xs ! i = Some (zs ! i)"
    by simp_all
  show ?case
    using l n by (simp add: x ys nth_Cons split: nat.splits)
qed

lemma those_None: "None \<in> set xs \<Longrightarrow> those xs = None"
  by (induction xs) (auto split: option.splits)

lemma copy_row_length: "copy_row dst src = Some r \<Longrightarrow> length r = length dst"
  by (auto simp: copy_row_def split: if_splits)

lemma copy_into_shape:
  assumes "copy_into s ns = Some rows"
  shows "length rows = length s \<and> (\<forall>i<length s. length (rows ! i) = length (s ! i))"
proof (cases "length ns = length s")
  case True
  then have t: "those (map (\<lambda>(dst, src). copy_row dst src) (zip s ns)) = Some rows"
    using assms by (simp add: copy_into_def)
  from those_Some_nth [OF t] True
  have l: "length rows = length s"
    and n: "\<forall>i<length s. copy_row (s ! i) (ns ! i) = Some (rows ! i)"
    by simp_all
  show ?thesis
    using l n copy_row_length by blast
next
  case False
  then have one: "length ns = 1"
    using assms by (simp add: copy_into_def split: if_splits)
  then have t: "those (map (\<lambda>dst. copy_row dst (hd ns)) s) = Some rows"
    using assms False by (simp add: copy_into_def)
  from those_Some_nth [OF t]
  have l: "length rows = length s"
    and n: "\<forall>i<length s. copy_row (s ! i) (hd ns) = Some (rows ! i)"
    by simp_all
  show ?thesis
    using l n copy_row_length by blast
qed

lemma copy_into_rows_mismatch:
  "length ns \<noteq> length s \<Longrightarrow> length ns \<noteq> 1 \<Longrightarrow> copy_into s ns = None"
  by (simp add: copy_into_def)

lemma copy_into_width_mismatch:
  assumes "length ns = length s" and "i < length s"
    and "length (ns ! i) \<noteq> length (s ! i)" and "length (ns ! i) \<noteq> 1"
  shows "copy_into s ns = None"
proof -
  have "copy_row (s ! i) (ns ! i) = None"
    using assms(3,4) by (simp add: copy_row_def)
  then have "map (\<lambda>(dst, src). copy_row dst src) (zip s ns) ! i = None"
    using assms(1,2) by simp
  moreover have "i < length (map (\<lambda>(dst, src). copy_row dst src) (zip s ns))"
    using assms(1,2) by simp
  ultimately have "None \<in> set (map (\<lambda>(dst, src). copy_row dst src) (zip s ns))"
    by (metis nth_mem)
  then show ?thesis
    using assms(1) by (simp add: copy_into_def those_None)
qed

lemma share_memory_missing_model:
  assumes "\<not> list_all models_present (t_agents self)" and "t_num_agents self \<noteq> 1"
  shows "train self = Inl Raised"
  using assms
  by (auto simp: train_def startup_def share_memory_def and_then_def models_present_def [abs_def])

lemma stub_proc_ok: "proc_ok True D D stub_proc"
  by (simp add: proc_ok_def stub_proc_def agent_ok_def stub_agent_width stub_agent_super)

lemma stub_coord_ok: "list_all (proc_ok True D D) (c_procs stub_coord)"
  by (simp add: stub_coord_def stub_proc_ok)


section \<open>Properties of the trainer\<close>

text \<open>
  C10. A message whose task is none of the seven known commands: no branch of the
  dispatch is taken, so the worker is left as it was (no exception, no agent call, no
  barrier wait, the cached \<open>_states\<close> and \<open>_actions\<close> unchanged), and the loop goes on
  to receive the next message.
\<close>

theorem unknown_task_ignored:
  assumes "task m \<notin> known_tasks" and "p_loc p = Loop"
  shows "handle sc m p = p \<and>
         recv_loop sc (m # ms) p = recv_loop sc ms (p\<lparr>p_pipe := ms, p_trace := p_trace p @ [Recv m]\<rparr>)"
  using assms by (simp add: handle_def known_tasks_def note_event_def)

theorem unknown_task_ignored_witness:
  "task (task_msg ''shutdown'') \<notin> known_tasks \<and> p_loc stub_proc = Loop \<and>
   handle (1, 3) (task_msg ''shutdown'') stub_proc = stub_proc \<and>
   recv_loop (1, 3) [task_msg ''shutdown''] stub_proc
     = stub_proc\<lparr>p_pipe := [], p_trace := [Recv (task_msg ''shutdown'')]\<rparr>"
proof -
  have k: "task (task_msg ''shutdown'') \<notin> known_tasks"
    by (simp add: task_msg_def known_tasks_def)
  have l: "p_loc stub_proc = Loop"
    by (simp add: stub_proc_def)
  show ?thesis
    using k l unknown_task_ignored [OF k l, of "(1, 3)" "[]"] by (simp add: stub_proc_def)
qed

text \<open>
  C3. A worker that is idle in its loop with the agent \<open>a\<close> and the scope \<open>(lo, hi)\<close>
  serves an \<open>act\<close> command on the full \<open>states\<close>, and then a \<open>record_transition\<close>
  command on the full \<open>rewards\<close>, \<open>next_states\<close>, \<open>dones\<close> and \<open>infos\<close>. On \<open>act\<close> it
  slices the states to \<open>[lo:hi]\<close> before it calls \<open>agent.act\<close>, and caches the slice and
  the actions. On \<open>record_transition\<close> it slices the rewards, the next states and the dones
  to \<open>[lo:hi]\<close>, hands the infos over whole, and supplies the cached states and actions.
  For a scope inside the batch the slice is the rows \<open>lo\<close> to \<open>hi - 1\<close>: \<open>hi - lo\<close> rows.
\<close>

theorem worker_slices_by_scope:
  assumes "ready p" and "p_agent p = Some a" and "p_scope p = Some (lo, hi)"
  shows "let s = py_slice states lo hi;
             actions = fst (agent_act a (agent_calls a) s t n);
             p1 = acted states t n p;
             p2 = served (step_msg ''record_transition'' t n) (transition_items rewards next_states dones infos) p1
         in p_states p1 = Some s \<and> p_actions p1 = Some actions \<and>
            p_trace p1 = p_trace p @ [Recv (step_msg ''act'' t n), QueueGet (TensorItem states),
               Call (Act s t n), QueuePut (TensorItem actions), Wait] \<and>
            p_trace p2 = p_trace p1 @ [Recv (step_msg ''record_transition'' t n),
               QueueGet (TensorItem rewards), QueueGet (TensorItem next_states),
               QueueGet (TensorItem dones), QueueGet (InfoItem infos),
               Call (RecordTransition (Some s) (Some actions) (py_slice rewards lo hi)
                      (py_slice next_states lo hi) (py_slice dones lo hi) (InfoArg infos) t n),
               Wait] \<and>
            (0 \<le> lo \<and> lo \<le> hi \<and> hi \<le> int (length states) \<longrightarrow>
               s = take (nat (hi - lo)) (drop (nat lo) states) \<and> length s = nat (hi - lo))"
proof -
  let ?s = "py_slice states lo hi"
  let ?acts = "fst (agent_act a (agent_calls a) ?s t n)"
  let ?p1 = "acted states t n p"
  have r1: "ready ?p1"
    using assms(1) by (rule ready_acted)
  have a1: "p_agent ?p1 = Some (agent_call (Act ?s t n) a)"
    using assms by (simp add: acted_ready Let_def)
  have s1: "p_scope ?p1 = Some (lo, hi)"
    using assms by (simp add: acted_ready Let_def)
  have st: "p_states ?p1 = Some ?s" and ac: "p_actions ?p1 = Some ?acts"
    using assms by (simp_all add: acted_ready Let_def)
  have t1: "p_trace ?p1 = p_trace p @ [Recv (step_msg ''act'' t n), QueueGet (TensorItem states),
               Call (Act ?s t n), QueuePut (TensorItem ?acts), Wait]"
    using assms by (simp add: acted_ready Let_def)
  have t2: "p_trace (served (step_msg ''record_transition'' t n)
                       (transition_items rewards next_states dones infos) ?p1)
            = p_trace ?p1 @ [Recv (step_msg ''record_transition'' t n),
               QueueGet (TensorItem rewards), QueueGet (TensorItem next_states),
               QueueGet (TensorItem dones), QueueGet (InfoItem infos),
               Call (RecordTransition (Some ?s) (Some ?acts) (py_slice rewards lo hi)
                      (py_slice next_states lo hi) (py_slice dones lo hi) (InfoArg infos) t n),
               Wait]"
    by (simp add: served_record [OF r1 a1 s1] Let_def st ac)
  have sl: "0 \<le> lo \<and> lo \<le> hi \<and> hi \<le> int (length states) \<longrightarrow>
            ?s = take (nat (hi - lo)) (drop (nat lo) states) \<and> length ?s = nat (hi - lo)"
    by (auto simp: py_slice_def slice_bound_def Let_def min_def nat_diff_distrib)
  show ?thesis
    unfolding Let_def using st ac t1 t2 sl by blast
qed

theorem worker_slices_by_scope_witness:
  "ready stub_proc \<and> p_agent stub_proc = Some stub_agent \<and> p_scope stub_proc = Some (1, 3) \<and>
   p_states (acted [[10], [20], [30], [40]] 0 5 stub_proc) = Some [[20], [30]] \<and>
   p_actions (acted [[10], [20], [30], [40]] 0 5 stub_proc) = Some [[21], [31]] \<and>
   p_trace (served (step_msg ''record_transition'' 0 5)
              (transition_items [[1], [2], [3], [4]] [[11], [21], [31], [41]] [[0], [0], [1], [0]] [(''k'', 7)])
              (acted [[10], [20], [30], [40]] 0 5 stub_proc))
   = [Recv (step_msg ''act'' 0 5), QueueGet (TensorItem [[10], [20], [30], [40]]),
      Call (Act [[20], [30]] 0 5), QueuePut (TensorItem [[21], [31]]), Wait,
      Recv (step_msg ''record_transition'' 0 5),
      QueueGet (TensorItem [[1], [2], [3], [4]]), QueueGet (TensorItem [[11], [21], [31], [41]]),
      QueueGet (TensorItem [[0], [0], [1], [0]]), QueueGet (InfoItem [(''k'', 7)]),
      Call (RecordTransition (Some [[20], [30]]) (Some [[21], [31]]) [[2], [3]] [[21], [31]] [[0], [1]]
              (InfoArg [(''k'', 7)]) 0 5),
      Wait]"
proof -
  have r: "ready stub_proc"
    by (simp add: ready_def stub_proc_def)
  have a: "p_agent stub_proc = Some stub_agent"
    by (simp add: stub_proc_def)
  have s: "p_scope stub_proc = Some (1, 3)"
    by (simp add: stub_proc_def)
  have sl: "\<And>xs :: tensor. length xs = 4 \<Longrightarrow> py_slice xs 1 3 = take 2 (drop 1 xs)"
    by (simp add: py_slice_def slice_bound_def)
  show ?thesis
    using r a s
      worker_slices_by_scope [OF r a s, of "[[10], [20], [30], [40]]" 0 5
        "[[1], [2], [3], [4]]" "[[11], [21], [31], [41]]" "[[0], [0], [1], [0]]" "[(''k'', 7)]"]
    by (simp add: Let_def sl stub_agent_def) (simp add: stub_proc_def)
qed

text \<open>
  C6. With exactly one agent, \<open>train\<close> and \<open>eval\<close> call \<open>self.agents.init()\<close> and the
  sequential method of the base class, and return: no barrier, pipe or queue is created,
  no process is started, there is no worker.
\<close>

theorem single_agent_path:
  assumes "t_num_agents self = 1"
  shows "train self = Inr \<lparr>c_env = t_env self, c_procs = [], c_parties = 0,
                          c_trace = [AgentsInit, SingleAgentTrain]\<rparr> \<and>
         eval self = Inr \<lparr>c_env = t_env self, c_procs = [], c_parties = 0,
                         c_trace = [AgentsInit, SingleAgentEval]\<rparr>"
  using assms by (simp add: train_def eval_def single_agent_def)

theorem single_agent_path_witness:
  "t_num_agents stub_single = 1 \<and>
   train stub_single = Inr \<lparr>c_env = stub_env, c_procs = [], c_parties = 0,
                           c_trace = [AgentsInit, SingleAgentTrain]\<rparr> \<and>
   eval stub_single = Inr \<lparr>c_env = stub_env, c_procs = [], c_parties = 0,
                          c_trace = [AgentsInit, SingleAgentEval]\<rparr>"
proof -
  have n: "t_num_agents stub_single = 1"
    by (simp add: stub_single_def)
  show ?thesis
    using n single_agent_path [OF n] by (simp add: stub_single_def)
qed

text \<open>
  C2. Take a trainer with at least two agents, an environment that always answers with
  states of the size of the batch and of one width, agents whose policies answer such
  states with actions of one width, and no model that is \<open>None\<close>. Then \<open>train\<close>
  returns, and its barrier has one party for each worker and one for the main process. The
  phases of the main process are, for every timestep in turn: the \<open>pre_interaction\<close>
  command to every worker and a rendezvous, the \<open>act\<close> command and a rendezvous,
  \<open>env.step\<close>, the rendering, the \<open>record_transition\<close> command and a rendezvous, the
  \<open>post_interaction\<close> command and a rendezvous, and the reset check. Every worker
  receives, for every timestep in turn, \<open>pre_interaction\<close>, \<open>act\<close>,
  \<open>record_transition\<close> and \<open>post_interaction\<close>, each followed by its barrier wait
  before the next message is received. (Without these conditions the run can end in an
  exception instead: \<open>torch.vstack\<close> on action slices of different widths,
  \<open>states.copy_\<close> on next states of another shape, \<open>model.share_memory()\<close> on
  \<open>None\<close>.)
\<close>

theorem train_phase_order:
  assumes "well_formed self" and "env_shape B D (t_env self)"
    and "list_all (acts_width D A) (t_agents self)"
    and "list_all models_present (t_agents self)"
  shows "\<exists>c. train self = Inr c \<and> c_parties c = t_num_agents self + 1 \<and>
      marks (c_trace c) = startup_marks (t_num_agents self)
         @ concat (map (train_marks (t_num_agents self) (t_headless self) (t_timesteps self))
                     (py_range (t_initial_timestep self) (t_timesteps self)))
         @ shutdown_marks (t_num_agents self) \<and>
      (\<forall>j<t_num_agents self. sync (p_trace (c_procs c ! j))
                = [Wait, Recv (task_msg ''init''), Wait]
                  @ concat (map (worker_timestep train_tasks (t_timesteps self))
                              (py_range (t_initial_timestep self) (t_timesteps self)))
                  @ [Recv (task_msg ''terminate'')])"
  using train_run [OF assms] by blast

theorem train_phase_order_witness:
  "well_formed stub_parallel \<and> env_shape 4 1 (t_env stub_parallel) \<and>
   list_all (acts_width 1 1) (t_agents stub_parallel) \<and>
   list_all models_present (t_agents stub_parallel) \<and>
   (\<exists>c. train stub_parallel = Inr c \<and> c_parties c = 3 \<and>
      marks (c_trace c) =
        [Rendezvous, Sent 0 (task_msg ''init''), Sent 1 (task_msg ''init''), Rendezvous, StatesRenewed,
         Sent 0 (step_msg ''pre_interaction'' 0 2), Sent 1 (step_msg ''pre_interaction'' 0 2), Rendezvous,
         Sent 0 (step_msg ''act'' 0 2), Sent 1 (step_msg ''act'' 0 2), Rendezvous,
         Stepped, Rendered,
         Sent 0 (step_msg ''record_transition'' 0 2), Sent 1 (step_msg ''record_transition'' 0 2), Rendezvous,
         Sent 0 (step_msg ''post_interaction'' 0 2), Sent 1 (step_msg ''post_interaction'' 0 2), Rendezvous,
         StatesRenewed,
         Sent 0 (step_msg ''pre_interaction'' 1 2), Sent 1 (step_msg ''pre_interaction'' 1 2), Rendezvous,
         Sent 0 (step_msg ''act'' 1 2), Sent 1 (step_msg ''act'' 1 2), Rendezvous,
         Stepped, Rendered,
         Sent 0 (step_msg ''record_transition'' 1 2), Sent 1 (step_msg ''record_transition'' 1 2), Rendezvous,
         Sent 0 (step_msg ''post_interaction'' 1 2), Sent 1 (step_msg ''post_interaction'' 1 2), Rendezvous,
         StatesRenewed,
         Sent 0 (task_msg ''terminate''), Sent 1 (task_msg ''terminate''), Joined 0, Joined 1, Closed] \<and>
      sync (p_trace (c_procs c ! 1)) =
        [Wait, Recv (task_msg ''init''), Wait,
         Recv (step_msg ''pre_interaction'' 0 2), Wait, Recv (step_msg ''act'' 0 2), Wait,
         Recv (step_msg ''record_transition'' 0 2), Wait, Recv (step_msg ''post_interaction'' 0 2), Wait,
         Recv (step_msg ''pre_interaction'' 1 2), Wait, Recv (step_msg ''act'' 1 2), Wait,
         Recv (step_msg ''record_transition'' 1 2), Wait, Recv (step_msg ''post_interaction'' 1 2), Wait,
         Recv (task_msg ''terminate'')])"
proof -
  have wf: "well_formed stub_parallel"
    by (rule stub_parallel_wf)
  note es = stub_parallel_env_shape
  note ag = stub_parallel_agents(1)
  note mo = stub_parallel_agents(3)
  have e: "t_num_agents stub_parallel = 2"
    "t_timesteps stub_parallel = 2" "t_initial_timestep stub_parallel = 0"
    "t_headless stub_parallel = False"
    by (simp_all add: stub_parallel_def)
  from train_phase_order [OF wf es ag mo] obtain c where
    c: "train stub_parallel = Inr c" "c_parties c = 3"
      "marks (c_trace c) = startup_marks 2 @ concat (map (train_marks 2 False 2) (py_range 0 2)) @ shutdown_marks 2"
      "\<forall>j<2. sync (p_trace (c_procs c ! j))
                = [Wait, Recv (task_msg ''init''), Wait]
                  @ concat (map (worker_timestep train_tasks 2) (py_range 0 2))
                  @ [Recv (task_msg ''terminate'')]"
    unfolding e by auto
  have s: "sync (p_trace (c_procs c ! Suc 0)) = [Wait, Recv (task_msg ''init''), Wait]
                  @ concat (map (worker_timestep train_tasks 2) (py_range 0 2))
                  @ [Recv (task_msg ''terminate'')]"
    using c(4) by simp
  have r: "\<exists>c. train stub_parallel = Inr c \<and> c_parties c = 3 \<and>
      marks (c_trace c) =
        [Rendezvous, Sent 0 (task_msg ''init''), Sent 1 (task_msg ''init''), Rendezvous, StatesRenewed,
         Sent 0 (step_msg ''pre_interaction'' 0 2), Sent 1 (step_msg ''pre_interaction'' 0 2), Rendezvous,
         Sent 0 (step_msg ''act'' 0 2), Sent 1 (step_msg ''act'' 0 2), Rendezvous,
         Stepped, Rendered,
         Sent 0 (step_msg ''record_transition'' 0 2), Sent 1 (step_msg ''record_transition'' 0 2), Rendezvous,
         Sent 0 (step_msg ''post_interaction'' 0 2), Sent 1 (step_msg ''post_interaction'' 0 2), Rendezvous,
         StatesRenewed,
         Sent 0 (step_msg ''pre_interaction'' 1 2), Sent 1 (step_msg ''pre_interaction'' 1 2), Rendezvous,
         Sent 0 (step_msg ''act'' 1 2), Sent 1 (step_msg ''act'' 1 2), Rendezvous,
         Stepped, Rendered,
         Sent 0 (step_msg ''record_transition'' 1 2), Sent 1 (step_msg ''record_transition'' 1 2), Rendezvous,
         Sent 0 (step_msg ''post_interaction'' 1 2), Sent 1 (step_msg ''post_interaction'' 1 2), Rendezvous,
         StatesRenewed,
         Sent 0 (task_msg ''terminate''), Sent 1 (task_msg ''terminate''), Joined 0, Joined 1, Closed] \<and>
      sync (p_trace (c_procs c ! 1)) =
        [Wait, Recv (task_msg ''init''), Wait,
         Recv (step_msg ''pre_interaction'' 0 2), Wait, Recv (step_msg ''act'' 0 2), Wait,
         Recv (step_msg ''record_transition'' 0 2), Wait, Recv (step_msg ''post_interaction'' 0 2), Wait,
         Recv (step_msg ''pre_interaction'' 1 2), Wait, Recv (step_msg ''act'' 1 2), Wait,
         Recv (step_msg ''record_transition'' 1 2), Wait, Recv (step_msg ''post_interaction'' 1 2), Wait,
         Recv (task_msg ''terminate'')]"
    using c(1,2)
    by (simp add: c(3) s py_range_0_2 upt_2 startup_marks_def train_marks_def shutdown_marks_def
        phase_marks_def worker_timestep_def train_tasks_def)
  show ?thesis
    using wf es ag mo r by blast
qed

text \<open>
  C4. The worker serves the single command of \<open>eval\<close> with
  \<open>super(type(agent), agent).record_transition\<close> and
  \<open>super(type(agent), agent).post_interaction\<close>: the methods as found from the parent
  of the agent's class. For an agent whose class derives from the base class \<open>Agent\<close>
  directly these are the base methods, which learn nothing. For an agent whose class
  \<open>MyPPO\<close> derives from the learning class \<open>PPO\<close> they are the learning overrides of
  \<open>PPO\<close>, and not the methods of the base class: on the command the worker calls the
  learning \<open>record_transition\<close> and then the learning \<open>post_interaction\<close> of \<open>PPO\<close>,
  and so does every worker in every timestep of a whole run of \<open>eval\<close> with two such
  agents.
\<close>

theorem eval_calls_parent_class:
  "super_method def_record_transition stub_agent = Some (''Agent'', NonLearning) \<and>
   super_method def_post_interaction stub_agent = Some (''Agent'', NonLearning) \<and>
   lookup_method def_record_transition [base_class] = Some (''Agent'', NonLearning) \<and>
   lookup_method def_post_interaction [base_class] = Some (''Agent'', NonLearning) \<and>
   super_method def_record_transition derived_agent = Some (''PPO'', Learning) \<and>
   super_method def_post_interaction derived_agent = Some (''PPO'', Learning) \<and>
   p_trace (served (step_msg ''eval-record_transition-post_interaction'' 0 2)
              (transition_items [[1], [2], [3], [4]] [[11], [21], [31], [41]] [[0], [0], [1], [0]] [])
              derived_proc)
   = [Recv (step_msg ''eval-record_transition-post_interaction'' 0 2),
      QueueGet (TensorItem [[1], [2], [3], [4]]), QueueGet (TensorItem [[11], [21], [31], [41]]),
      QueueGet (TensorItem [[0], [0], [1], [0]]), QueueGet (InfoItem []),
      Call (SuperRecordTransition (''PPO'', Learning) None None [[2], [3]] [[21], [31]] [[0], [1]]
              (InfoArg []) 0 2),
      Call (SuperPostInteraction (''PPO'', Learning) 0 2), Wait] \<and>
   super_calls (eval stub_parallel)
   = Some [[(''Agent'', NonLearning), (''Agent'', NonLearning), (''Agent'', NonLearning), (''Agent'', NonLearning)],
           [(''Agent'', NonLearning), (''Agent'', NonLearning), (''Agent'', NonLearning), (''Agent'', NonLearning)]] \<and>
   super_calls (eval derived_parallel)
   = Some [[(''PPO'', Learning), (''PPO'', Learning), (''PPO'', Learning), (''PPO'', Learning)],
           [(''PPO'', Learning), (''PPO'', Learning), (''PPO'', Learning), (''PPO'', Learning)]]"
proof -
  have l: "super_method def_record_transition stub_agent = Some (''Agent'', NonLearning)"
    "super_method def_post_interaction stub_agent = Some (''Agent'', NonLearning)"
    "lookup_method def_record_transition [base_class] = Some (''Agent'', NonLearning)"
    "lookup_method def_post_interaction [base_class] = Some (''Agent'', NonLearning)"
    by (simp_all add: super_method_def stub_agent_def base_class_def)
  have d: "super_method def_record_transition derived_agent = Some (''PPO'', Learning)"
    "super_method def_post_interaction derived_agent = Some (''PPO'', Learning)"
    by (simp_all add: super_method_def derived_agent_def learning_class_def)
  have r: "ready derived_proc"
    by (simp add: ready_def derived_proc_def stub_proc_def)
  have a: "p_agent derived_proc = Some derived_agent" and sc: "p_scope derived_proc = Some (1, 3)"
    by (simp_all add: derived_proc_def stub_proc_def)
  have sl: "\<And>xs :: tensor. length xs = 4 \<Longrightarrow> py_slice xs 1 3 = take 2 (drop 1 xs)"
    by (simp add: py_slice_def slice_bound_def)
  have w: "p_trace (served (step_msg ''eval-record_transition-post_interaction'' 0 2)
              (transition_items [[1], [2], [3], [4]] [[11], [21], [31], [41]] [[0], [0], [1], [0]] [])
              derived_proc)
   = [Recv (step_msg ''eval-record_transition-post_interaction'' 0 2),
      QueueGet (TensorItem [[1], [2], [3], [4]]), QueueGet (TensorItem [[11], [21], [31], [41]]),
      QueueGet (TensorItem [[0], [0], [1], [0]]), QueueGet (InfoItem []),
      Call (SuperRecordTransition (''PPO'', Learning) None None [[2], [3]] [[21], [31]] [[0], [1]]
              (InfoArg []) 0 2),
      Call (SuperPostInteraction (''PPO'', Learning) 0 2), Wait]"
    by (simp only: served_eval [OF r a sc d]) (simp add: Let_def sl derived_proc_def stub_proc_def)
  have e1: "super_calls (eval stub_parallel)
   = Some [[(''Agent'', NonLearning), (''Agent'', NonLearning), (''Agent'', NonLearning), (''Agent'', NonLearning)],
           [(''Agent'', NonLearning), (''Agent'', NonLearning), (''Agent'', NonLearning), (''Agent'', NonLearning)]]"
    by code_simp
  have e2: "super_calls (eval derived_parallel)
   = Some [[(''PPO'', Learning), (''PPO'', Learning), (''PPO'', Learning), (''PPO'', Learning)],
           [(''PPO'', Learning), (''PPO'', Learning), (''PPO'', Learning), (''PPO'', Learning)]]"
    by code_simp
  show ?thesis
    using l d w e1 e2 by blast
qed

theorem eval_calls_parent_class_witness:
  "super_method def_record_transition derived_agent \<noteq> lookup_method def_record_transition [base_class] \<and>
   super_method def_post_interaction derived_agent \<noteq> lookup_method def_post_interaction [base_class] \<and>
   super_calls (eval derived_parallel) \<noteq> super_calls (eval stub_parallel)"
  using eval_calls_parent_class by simp



text \<open>
  C5. The last step of every timestep of \<open>train\<close> and of \<open>eval\<close> is the reset check on
  the \<open>dones\<close> and \<open>next_states\<close> that \<open>env.step\<close> returned in that timestep (the
  workers being idle at the start of the timestep, with agents as \<open>proc_ok\<close> says). The
  variable \<open>states\<close> refers to the object \<open>old\<close> with the content \<open>rows\<close>. If some
  entry of \<open>dones\<close> is true, \<open>env.reset()\<close> is called and \<open>states\<close> is bound to the
  object that this call returns, whatever \<open>old\<close> and \<open>rows\<close> were. Otherwise
  \<open>env.reset()\<close> is not called, and \<open>states\<close> still refers to \<open>old\<close>, into which
  \<open>next_states\<close> is copied: the content becomes \<open>next_states\<close> when the two have the
  same shape, the shape of the object never changes, and the copy raises when the numbers
  of rows differ and \<open>next_states\<close> has not one row, or when a row has another width than
  it should and not the width one. In the scenario of three workers, thirty environments
  and five timesteps with \<open>dones\<close> all true at timestep 3 only, the reset decisions are:
  the reset before the loop, then no reset at the timesteps 0, 1 and 2, a reset at
  timestep 3, and no reset at timestep 4.
\<close>

theorem reset_iff_any_done:
  assumes "quiescent c" and "c_procs c \<noteq> []"
    and "has_width D states" and "list_all (proc_ok True D A) (c_procs c)"
  shows "(\<exists>a ns r d i c'. env_step_fn (c_env c) (env_calls (c_env c)) a = (ns, r, d, i) \<and>
           env_calls (c_env c') = env_calls (c_env c) @ Step a # (if t_headless self then [] else [Render]) \<and>
           train_timestep self t ((ob, states), c) = reset_environments d (ob, states) ns c') \<and>
         (\<exists>a ns r d i c'. env_step_fn (c_env c) (env_calls (c_env c)) a = (ns, r, d, i) \<and>
           env_calls (c_env c') = env_calls (c_env c) @ Step a # (if t_headless self then [] else [Render]) \<and>
           eval_timestep self t ((ob, states), c) = reset_environments d (ob, states) ns c') \<and>
         reset_environments dones (old, rows) next_states k =
           (if tensor_any dones
            then Inr ((FromReset (length (env_calls (c_env k))), env_reset_fn (c_env k) (env_calls (c_env k))),
                      k\<lparr>c_env := (c_env k)\<lparr>env_calls := env_calls (c_env k) @ [Reset]\<rparr>,
                        c_trace := c_trace k @ [EnvCall Reset]\<rparr>)
            else case copy_into rows next_states of
                   None \<Rightarrow> Inl Raised
                 | Some rows' \<Rightarrow> Inr ((old, rows'), k\<lparr>c_trace := c_trace k @ [CopyStates]\<rparr>)) \<and>
         (length next_states = length rows \<and> (\<forall>j<length rows. length (next_states ! j) = length (rows ! j))
            \<longrightarrow> copy_into rows next_states = Some next_states) \<and>
         (\<forall>rows'. copy_into rows next_states = Some rows' \<longrightarrow>
            length rows' = length rows \<and> (\<forall>j<length rows. length (rows' ! j) = length (rows ! j))) \<and>
         (length next_states \<noteq> length rows \<and> length next_states \<noteq> 1 \<longrightarrow>
            copy_into rows next_states = None) \<and>
         (length next_states = length rows \<and>
          (\<exists>j<length rows. length (next_states ! j) \<noteq> length (rows ! j) \<and> length (next_states ! j) \<noteq> 1)
            \<longrightarrow> copy_into rows next_states = None) \<and>
         (tensor_any dones \<longleftrightarrow> (\<exists>row\<in>set dones. \<exists>x\<in>set row. x \<noteq> 0)) \<and>
         resets (train scenario) = Some [True, False, False, False, True, False] \<and>
         resets (eval scenario) = Some [True, False, False, False, True, False]"
proof -
  note 1 = train_timestep_ends_with_reset_check [OF assms(1,2,4,3), of self t ob]
  note 2 = eval_timestep_ends_with_reset_check [OF assms(1,2,4,3), of self t ob]
  have 3: "reset_environments dones (old, rows) next_states k =
           (if tensor_any dones
            then Inr ((FromReset (length (env_calls (c_env k))), env_reset_fn (c_env k) (env_calls (c_env k))),
                      k\<lparr>c_env := (c_env k)\<lparr>env_calls := env_calls (c_env k) @ [Reset]\<rparr>,
                        c_trace := c_trace k @ [EnvCall Reset]\<rparr>)
            else case copy_into rows next_states of
                   None \<Rightarrow> Inl Raised
                 | Some rows' \<Rightarrow> Inr ((old, rows'), k\<lparr>c_trace := c_trace k @ [CopyStates]\<rparr>))"
    by (simp add: reset_environments_cases split: option.splits)
  have 5: "length next_states = length rows \<and> (\<forall>j<length rows. length (next_states ! j) = length (rows ! j))
            \<longrightarrow> copy_into rows next_states = Some next_states"
    using copy_into_same_shape by blast
  have 6: "\<forall>rows'. copy_into rows next_states = Some rows' \<longrightarrow>
            length rows' = length rows \<and> (\<forall>j<length rows. length (rows' ! j) = length (rows ! j))"
    using copy_into_shape by blast
  have 7: "length next_states \<noteq> length rows \<and> length next_states \<noteq> 1 \<longrightarrow>
            copy_into rows next_states = None"
    using copy_into_rows_mismatch by blast
  have 8: "length next_states = length rows \<and>
          (\<exists>j<length rows. length (next_states ! j) \<noteq> length (rows ! j) \<and> length (next_states ! j) \<noteq> 1)
            \<longrightarrow> copy_into rows next_states = None"
    using copy_into_width_mismatch by blast
  note 9 = tensor_any_iff [of dones]
  show ?thesis
    by (intro conjI 1 2 3 5 6 7 8 9 scenario_train_resets scenario_eval_resets)
qed

theorem reset_iff_any_done_witness:
  "quiescent stub_coord \<and> c_procs stub_coord \<noteq> [] \<and> has_width 1 (replicate 4 [0]) \<and>
   list_all (proc_ok True 1 1) (c_procs stub_coord) \<and>
   (\<exists>a ns r d i c'. env_step_fn stub_env [] a = (ns, r, d, i) \<and>
        env_calls (c_env c') = [Step a] \<and>
        train_timestep stub_single 0 ((FromReset 0, replicate 4 [0]), stub_coord)
          = reset_environments d (FromReset 0, replicate 4 [0]) ns c') \<and>
   reset_environments [[0], [1]] (FromReset 7, [[5], [6]]) [[7], [8]] stub_coord
     = Inr ((FromReset 0, replicate 4 [0]),
            stub_coord\<lparr>c_env := stub_env\<lparr>env_calls := [Reset]\<rparr>, c_trace := [EnvCall Reset]\<rparr>) \<and>
   reset_environments [[0], [0]] (FromReset 7, [[5], [6]]) [[7], [8]] stub_coord
     = Inr ((FromReset 7, [[7], [8]]), stub_coord\<lparr>c_trace := [CopyStates]\<rparr>) \<and>
   reset_environments [[0], [0]] (FromReset 7, [[5], [6]]) [[7, 8], [9, 10]] stub_coord = Inl Raised"
proof -
  have f: "c_env stub_coord = stub_env" "env_calls stub_env = []" "c_trace stub_coord = []"
    "t_headless stub_single = True" "env_reset_fn stub_env [] = replicate 4 [0]"
    by (simp_all add: stub_coord_def stub_env_def stub_single_def)
  have a1: "tensor_any [[0], [1]]" and a0: "\<not> tensor_any [[0], [0]]"
    by (simp_all add: tensor_any_def)
  have w: "has_width 1 (replicate 4 [0])"
    by (simp add: has_width_def list_all_iff)
  have cp: "copy_into [[5], [6]] [[7], [8]] = Some [[7], [8]]"
    "copy_into [[5], [6]] [[7, 8], [9, 10]] = None"
    by (simp_all add: copy_into_def copy_row_def)
  note t1 = reset_iff_any_done [OF stub_coord_quiescent stub_coord_procs w stub_coord_ok,
      of stub_single 0 "FromReset 0" "[[0], [1]]" "FromReset 7" "[[5], [6]]" "[[7], [8]]" stub_coord,
      unfolded f]
  note t0 = reset_iff_any_done [OF stub_coord_quiescent stub_coord_procs w stub_coord_ok,
      of stub_single 0 "FromReset 0" "[[0], [0]]" "FromReset 7" "[[5], [6]]" "[[7], [8]]" stub_coord,
      unfolded f]
  note t2 = reset_iff_any_done [OF stub_coord_quiescent stub_coord_procs w stub_coord_ok,
      of stub_single 0 "FromReset 0" "[[0], [0]]" "FromReset 7" "[[5], [6]]" "[[7, 8], [9, 10]]" stub_coord,
      unfolded f]
  have r1: "reset_environments [[0], [1]] (FromReset 7, [[5], [6]]) [[7], [8]] stub_coord
     = Inr ((FromReset 0, replicate 4 [0]),
            stub_coord\<lparr>c_env := stub_env\<lparr>env_calls := [Reset]\<rparr>, c_trace := [EnvCall Reset]\<rparr>)"
    using t1 a1 by simp
  have r0: "reset_environments [[0], [0]] (FromReset 7, [[5], [6]]) [[7], [8]] stub_coord
     = Inr ((FromReset 7, [[7], [8]]), stub_coord\<lparr>c_trace := [CopyStates]\<rparr>)"
    using t0 a0 cp(1) by simp
  have r3: "reset_environments [[0], [0]] (FromReset 7, [[5], [6]]) [[7, 8], [9, 10]] stub_coord = Inl Raised"
    using t2 a0 cp(2) by simp
  have r2: "\<exists>a ns r d i c'. env_step_fn stub_env [] a = (ns, r, d, i) \<and>
        env_calls (c_env c') = [Step a] \<and>
        train_timestep stub_single 0 ((FromReset 0, replicate 4 [0]), stub_coord)
          = reset_environments d (FromReset 0, replicate 4 [0]) ns c'"
    using t1 by simp
  show ?thesis
    using stub_coord_quiescent stub_coord_procs w stub_coord_ok r0 r1 r2 r3 by blast
qed



text \<open>
  C9. The constructor copies the module's default configuration into a new dict and
  updates the copy with the caller's \<open>cfg\<close>: in the result every key of \<open>cfg\<close> has the
  caller's value and every other key has its default (\<open>timesteps\<close> 100000, \<open>headless\<close>
  False, nothing else). The result is a new object, and every dict that existed before,
  the module's \<open>PARALLEL_TRAINER_DEFAULT_CONFIG\<close> and the caller's \<open>cfg\<close> among them, is
  unchanged, also when the caller passes the module's dict itself.
\<close>

theorem config_merge:
  assumes "d < length h" and "u < length h" and "h ! d = PARALLEL_TRAINER_DEFAULT_CONFIG"
  shows "\<exists>a h'. init_cfg d u h = Some (a, h') \<and> a = length h \<and> length h' = Suc (length h) \<and>
           (\<forall>k. (h' ! a) k = (case (h ! u) k of Some v \<Rightarrow> Some v
                                 | None \<Rightarrow> PARALLEL_TRAINER_DEFAULT_CONFIG k)) \<and>
           (\<forall>k. k \<notin> dom (h ! u) \<longrightarrow>
                (h' ! a) k = (if k = ''timesteps'' then Some (IntVal 100000)
                              else if k = ''headless'' then Some (BoolVal False) else None)) \<and>
           (\<forall>b<length h. h' ! b = h ! b) \<and>
           h' ! d = PARALLEL_TRAINER_DEFAULT_CONFIG"
proof -
  let ?a = "length h"
  let ?h' = "(h @ [h ! d])[?a := ((h @ [h ! d]) ! ?a) ++ ((h @ [h ! d]) ! u)]"
  have run: "init_cfg d u h = Some (?a, ?h')"
    using assms(1,2) by (simp add: init_cfg_def deepcopy_def dict_update_def)
  have at: "?h' ! ?a = PARALLEL_TRAINER_DEFAULT_CONFIG ++ (h ! u)"
    using assms(2,3) by (simp add: nth_append)
  have old: "\<forall>b<length h. ?h' ! b = h ! b"
    by (simp add: nth_append)
  have m: "\<forall>k. (?h' ! ?a) k = (case (h ! u) k of Some v \<Rightarrow> Some v
                                 | None \<Rightarrow> PARALLEL_TRAINER_DEFAULT_CONFIG k)"
    unfolding at by (simp add: map_add_def)
  have dflt: "\<forall>k. k \<notin> dom (h ! u) \<longrightarrow>
                (?h' ! ?a) k = (if k = ''timesteps'' then Some (IntVal 100000)
                              else if k = ''headless'' then Some (BoolVal False) else None)"
    unfolding at by (auto simp: map_add_def PARALLEL_TRAINER_DEFAULT_CONFIG_def split: option.splits)
  have dd: "?h' ! d = PARALLEL_TRAINER_DEFAULT_CONFIG"
    using old assms(1,3) by simp
  have len: "length ?h' = Suc (length h)" by simp
  show ?thesis
    using run m dflt old dd len by blast
qed

theorem config_merge_witness:
  "(0::nat) < length stub_store \<and> (1::nat) < length stub_store \<and>
   stub_store ! 0 = PARALLEL_TRAINER_DEFAULT_CONFIG \<and>
   (\<exists>h'. init_cfg 0 1 stub_store = Some (2, h') \<and>
      (h' ! 2) ''timesteps'' = Some (IntVal 500) \<and>
      (h' ! 2) ''headless'' = Some (BoolVal False) \<and>
      (h' ! 2) ''seed'' = Some (IntVal 7) \<and>
      (h' ! 2) ''device'' = None \<and>
      h' ! 0 = PARALLEL_TRAINER_DEFAULT_CONFIG \<and> h' ! 1 = stub_store ! 1)"
proof -
  have l: "length stub_store = 2" and d: "(0::nat) < length stub_store" and u: "(1::nat) < length stub_store"
    and z: "stub_store ! 0 = PARALLEL_TRAINER_DEFAULT_CONFIG"
    by (simp_all add: stub_store_def)
  have s1: "stub_store ! Suc 0 = [''timesteps'' \<mapsto> IntVal 500, ''seed'' \<mapsto> IntVal 7]"
    by (simp add: stub_store_def)
  from config_merge [OF d u z] obtain h' where
    h: "init_cfg 0 1 stub_store = Some (2, h')"
      "\<forall>k. (h' ! 2) k = (case (stub_store ! 1) k of Some v \<Rightarrow> Some v
                                 | None \<Rightarrow> PARALLEL_TRAINER_DEFAULT_CONFIG k)"
      "\<forall>b<2. h' ! b = stub_store ! b"
    unfolding l by auto
  have v: "(h' ! 2) ''timesteps'' = Some (IntVal 500)" "(h' ! 2) ''headless'' = Some (BoolVal False)"
    "(h' ! 2) ''seed'' = Some (IntVal 7)" "(h' ! 2) ''device'' = None"
    by (simp_all add: h(2) s1 PARALLEL_TRAINER_DEFAULT_CONFIG_def)
  have o: "h' ! 0 = PARALLEL_TRAINER_DEFAULT_CONFIG" "h' ! 1 = stub_store ! 1"
    using h(3) z by simp_all
  show ?thesis
    using d u z h(1) v o by blast
qed

text \<open>
  C7. The validation raises \<open>ConfigurationError\<close> exactly when the scopes do not
  exactly tile the batch: when the number of scopes differs from the number of agents,
  or some scope is not a range \<open>0 \<le> start < end \<le> batch_size\<close>, or the ranges do not
  cover \<open>[0, batch_size)\<close>, or two of them overlap. When it raises, the trainer is not
  constructed and nothing is run (no process is started); when the scopes are a valid
  tiling it raises nothing and the training runs.
\<close>

theorem scopes_validated:
  "(validate n scs B = Some ConfigurationError \<longleftrightarrow>
      \<not> (length scs = n \<and>
         (\<forall>sc\<in>set scs. 0 \<le> fst sc \<and> fst sc < snd sc \<and> snd sc \<le> B) \<and>
         (\<Union>sc\<in>set scs. {fst sc..<snd sc}) = {0..<B} \<and>
         (\<forall>i<length scs. \<forall>j<length scs. i \<noteq> j \<longrightarrow>
            {fst (scs ! i)..<snd (scs ! i)} \<inter> {fst (scs ! j)..<snd (scs ! j)} = {}))) \<and>
   (validate n scs B \<noteq> Some ConfigurationError \<longrightarrow> validate n scs B = None) \<and>
   (validate (length (t_agents self)) (t_agents_scope self) B = Some ConfigurationError \<longrightarrow>
      checked_train B self = Inl ConfigurationError) \<and>
   (validate (length (t_agents self)) (t_agents_scope self) B = None \<longrightarrow>
      checked_train B self = Inr (train self))"
proof -
  have 0: "validate n scs B = Some ConfigurationError \<longleftrightarrow> \<not> (length scs = n \<and> tiles scs B)"
    by (simp add: validate_def)
  have 1: "validate n scs B = Some ConfigurationError \<longleftrightarrow>
      \<not> (length scs = n \<and>
         (\<forall>sc\<in>set scs. 0 \<le> fst sc \<and> fst sc < snd sc \<and> snd sc \<le> B) \<and>
         (\<Union>sc\<in>set scs. {fst sc..<snd sc}) = {0..<B} \<and>
         (\<forall>i<length scs. \<forall>j<length scs. i \<noteq> j \<longrightarrow>
            {fst (scs ! i)..<snd (scs ! i)} \<inter> {fst (scs ! j)..<snd (scs ! j)} = {}))"
    by (simp only: 0 tiles_iff)
  have 2: "validate n scs B \<noteq> Some ConfigurationError \<longrightarrow> validate n scs B = None"
    by (simp add: validate_def)
  have 3: "validate (length (t_agents self)) (t_agents_scope self) B = Some ConfigurationError \<longrightarrow>
      checked_train B self = Inl ConfigurationError"
    by (simp add: checked_train_def)
  have 4: "validate (length (t_agents self)) (t_agents_scope self) B = None \<longrightarrow>
      checked_train B self = Inr (train self)"
    by (simp add: checked_train_def)
  show ?thesis
    by (rule conjI [OF 1 conjI [OF 2 conjI [OF 3 4]]])
qed

theorem scopes_validated_witness:
  "validate (length (t_agents scenario)) (t_agents_scope scenario) 30 = None \<and>
   checked_train 30 scenario = Inr (train scenario) \<and>
   (\<Union>sc\<in>set (t_agents_scope scenario). {fst sc..<snd sc}) = {0..<30} \<and>
   validate 2 [(0, 10), (20, 30)] 30 = Some ConfigurationError \<and>
   validate 2 [(0, 20), (10, 30)] 30 = Some ConfigurationError \<and>
   validate 3 [(0, 10), (10, 30)] 30 = Some ConfigurationError"
proof -
  note t = scopes_validated [of "length (t_agents scenario)" "t_agents_scope scenario" 30 scenario]
  have r: "checked_train 30 scenario = Inr (train scenario)"
    using t scenario_valid by blast
  have "validate (length (t_agents scenario)) (t_agents_scope scenario) 30 \<noteq> Some ConfigurationError"
    using scenario_valid by simp
  then have u: "(\<Union>sc\<in>set (t_agents_scope scenario). {fst sc..<snd sc}) = {0..<30}"
    using t by blast
  show ?thesis
    using scenario_valid r u gap_invalid overlap_invalid count_invalid by blast
qed

end
